theory Spec2Isabelle
  imports Complex_Main "HOL-Library.Sublist"
begin

section \<open>The conversion of gui\_main\_window.cpp\<close>

text \<open>
  \<open>MainWindow::runConversion\<close> reads a text file of numbers, one matrix row per line,
  drops the empty rows, checks that the rows have one length, transposes on request and
  writes the rows to one file or to one file per row. The body of the lambda it hands to
  the conversion thread is embedded here stage by stage, in the order of the source.

  The values are C++ \<open>double\<close>s. Their decimal conversions belong to the standard
  library, so the element type is a type variable and the two conversions are
  parameters: \<open>strtod\<close> turns the characters that \<open>operator>>\<close> has accepted into a value,
  \<open>dtoa\<close> is the text that \<open>operator<<\<close> writes for a value. The counter \<open>nLine\<close> is a
  \<open>size_t\<close>; it counts elements of a vector in memory and cannot wrap, so it is a \<open>nat\<close>.
\<close>

subsection \<open>Exceptions\<close>

text \<open>
  Every \<open>CU_THROW\<close> of the source is one constructor, carrying the values that the
  source puts into the message; \<open>what\<close> is the message itself.
\<close>

datatype error =
    CouldNotOpen string
  | CouldNotRead string
  | EndNotReached string
  | ParseError nat string
  | EmptyMatrixError string
  | RaggedMatrixError nat
  | EmptyTokenError
  | TokenNotFoundError
  | WriteError nat string

subsection \<open>\<open>std::to_string\<close> of a \<open>size_t\<close>\<close>

definition digit_char :: "nat \<Rightarrow> char" where
  "digit_char d = ''0123456789'' ! d"

fun to_string :: "nat \<Rightarrow> string" where
  "to_string n = (if n < 10 then [digit_char n] else to_string (n div 10) @ [digit_char (n mod 10)])"

declare to_string.simps [simp del]

fun what :: "error \<Rightarrow> string" where
  "what (CouldNotOpen f) = ''Could not open the file '' @ [CHR 0x27] @ f @ [CHR 0x27] @ ''.''"
| "what (CouldNotRead f) = ''The file '' @ [CHR 0x27] @ f @ [CHR 0x27] @ '' could not be read.''"
| "what (EndNotReached f) =
     ''The end of the file '' @ [CHR 0x27, CHR 0x22, CHR 0x27] @ f @ [CHR 0x27] @ '' has not been reached.''"
| "what (ParseError n f) =
     ''Line '' @ to_string n @ '' in file '' @ [CHR 0x27] @ f @ [CHR 0x27] @
     '' could not be parsed to the end.''"
| "what (EmptyMatrixError f) =
     ''The file '' @ [CHR 0x27] @ f @ [CHR 0x27] @ '' does not contain samples.''"
| "what (RaggedMatrixError n) =
     ''Row '' @ to_string n @
     ''of the matrix contains a different number of samples than the first row.''"
| "what EmptyTokenError =
     ''No characters to be replaced in the output file pattern have been specified.''"
| "what TokenNotFoundError =
     ''Replacement characters could not be found in the output file pattern.''"
| "what (WriteError n f) =
     ''Failed to write row '' @ to_string n @ '' to the file '' @ [CHR 0x27] @ f @ [CHR 0x27] @ ''.''"

subsection \<open>Reading one line: \<open>std::istream_iterator<double>\<close> on a \<open>std::istringstream\<close>\<close>

definition isspace :: "char \<Rightarrow> bool" where
  "isspace c = (c \<in> {CHR '' '', CHR 0x09, CHR 0x0A, CHR 0x0B, CHR 0x0C, CHR 0x0D})"

definition isdigit :: "char \<Rightarrow> bool" where
  "isdigit c = (c \<in> set ''0123456789'')"

definition scan_sign :: "string \<Rightarrow> string \<times> string" where
  "scan_sign s =
     (case s of
        [] \<Rightarrow> ([], [])
      | c # cs \<Rightarrow> if c = CHR ''+'' \<or> c = CHR ''-'' then ([c], cs) else ([], s))"

definition scan_digits :: "string \<Rightarrow> string \<times> string" where
  "scan_digits s = (takeWhile isdigit s, dropWhile isdigit s)"

text \<open>
  The characters that \<open>std::num_get\<close> accumulates for a \<open>double\<close> in the classic locale,
  as the GNU library does it: a sign, digits with at most one decimal point and, once a
  digit has been seen, an exponent letter with its sign and digits. The accumulation
  stops at the first character that cannot go on the number, or at the end of the text.
  The result is the accumulated text, the unread rest, and whether the accumulated text
  converts (a digit in the mantissa, and a digit in the exponent if there is an exponent
  letter). The GNU library accepts neither hexadecimal numbers nor the words for
  infinity and not-a-number here.
\<close>

definition scan_float :: "string \<Rightarrow> string \<times> string \<times> bool" where
  "scan_float s =
     (let (sg, s1) = scan_sign s;
          (ip, s2) = scan_digits s1;
          (fp, s3) = (case s2 of
                        c # cs \<Rightarrow> if c = CHR ''.''
                                  then (let (d, r) = scan_digits cs in (c # d, r))
                                  else ([], s2)
                      | [] \<Rightarrow> ([], s2));
          found_mantissa = (ip \<noteq> [] \<or> 1 < length fp)
      in case s3 of
           c # cs \<Rightarrow>
             if (c = CHR ''e'' \<or> c = CHR ''E'') \<and> found_mantissa
             then (let (sg2, r1) = scan_sign cs; (d2, r2) = scan_digits r1
                   in (sg @ ip @ fp @ CHR ''e'' # sg2 @ d2, r2, d2 \<noteq> []))
             else (sg @ ip @ fp, s3, found_mantissa)
         | [] \<Rightarrow> (sg @ ip @ fp, s3, found_mantissa))"

text \<open>
  The number that an accumulated text denotes, exactly, as a rational number.
\<close>

definition digit_value :: "char \<Rightarrow> int" where
  "digit_value c = int (length (takeWhile (\<lambda>d. d \<noteq> c) ''0123456789''))"

definition int_of_digits :: "string \<Rightarrow> int" where
  "int_of_digits ds = foldl (\<lambda>n c. 10 * n + digit_value c) 0 ds"

definition dec_strtod :: "string \<Rightarrow> rat" where
  "dec_strtod s =
     (let (sg, s1) = scan_sign s;
          (ip, s2) = scan_digits s1;
          fp = (case s2 of c # cs \<Rightarrow> if c = CHR ''.'' then takeWhile isdigit cs else [] | [] \<Rightarrow> []);
          (esg, ed) = (case dropWhile (\<lambda>c. c \<noteq> CHR ''e'') s2 of
                         [] \<Rightarrow> ([], [])
                       | e # cs \<Rightarrow> (let (g, r) = scan_sign cs in (g, takeWhile isdigit r)));
          ex = (if esg = ''-'' then - int_of_digits ed else int_of_digits ed) - int (length fp);
          v = of_int (int_of_digits (ip @ fp)) * power_int 10 ex
      in if sg = ''-'' then - v else v)"

text \<open>
  The library converts the accumulated text with \<open>strtod\<close>, which rounds to the nearest
  \<open>double\<close>, and sets \<open>failbit\<close> when the result is an infinity: that is when the exact
  value reaches \<open>2^1024 - 2^970\<close>, half a step above the largest \<open>double\<close>. A value too
  small for a \<open>double\<close> converts to a denormal number or to zero and is no failure.
\<close>

definition in_range :: "string \<Rightarrow> bool" where
  "in_range xtrc = (\<bar>dec_strtod xtrc\<bar> < 2 ^ 1024 - 2 ^ 970)"

text \<open>
  The stream: the unread characters and the two state bits the source looks at.
  \<open>badbit\<close> is never set on a string stream, so \<open>is.bad()\<close> is false throughout.
\<close>

record istringstream =
  unread :: string
  eofbit :: bool
  failbit :: bool

definition istringstream_of :: "string \<Rightarrow> istringstream" where
  "istringstream_of line = \<lparr>unread = line, eofbit = False, failbit = False\<rparr>"

text \<open>
  \<open>is >> x\<close>: nothing is read from a stream that is not good; otherwise white space is
  skipped; if nothing is left, \<open>eofbit\<close> and \<open>failbit\<close> are set; else the characters of
  a number are accumulated, \<open>eofbit\<close> is set if that reaches the end of the text, and
  \<open>failbit\<close> is set, and no value is stored, if the accumulated text does not convert
  or denotes a number out of the range of a \<open>double\<close>.
\<close>

definition extract_double :: "(string \<Rightarrow> 'a) \<Rightarrow> istringstream \<Rightarrow> 'a option \<times> istringstream" where
  "extract_double strtod st =
     (if eofbit st \<or> failbit st then (None, st\<lparr>failbit := True\<rparr>)
      else let s = dropWhile isspace (unread st)
           in if s = [] then (None, \<lparr>unread = [], eofbit = True, failbit = True\<rparr>)
              else let (xtrc, r, ok) = scan_float s;
                       converts = (ok \<and> in_range xtrc)
                   in (if converts then Some (strtod xtrc) else None,
                       \<lparr>unread = r, eofbit = (r = []), failbit = \<not> converts\<rparr>))"

text \<open>
  \<open>std::copy(std::istream_iterator<double>(is), std::istream_iterator<double>(),
  std::back_inserter(matrix.back()))\<close>: values are read until an extraction fails.
\<close>

function copy_doubles :: "(string \<Rightarrow> 'a) \<Rightarrow> istringstream \<Rightarrow> 'a list \<times> istringstream" where
  "copy_doubles strtod st =
     (case extract_double strtod st of
        (None, st') \<Rightarrow> ([], st')
      | (Some v, st') \<Rightarrow> (let (vs, st'') = copy_doubles strtod st' in (v # vs, st'')))"
  by pat_completeness auto

text \<open>
  The loop ends because every value that is read shortens the unread text; this is
  proved below, before anything is proved about the loop.
\<close>

subsection \<open>The input file and the lines of the matrix\<close>

text \<open>
  What the source observes of \<open>std::ifstream inputFile{inputFileName}\<close> and of
  \<open>cu::extractByLine(inputFile)\<close>: the file does not open, the stream is bad after the
  extraction, the extraction stopped before the end of the file, or the lines.
\<close>

datatype input_file = Missing | Unreadable | Unfinished | Content "string list"

definition read_input :: "(string \<Rightarrow> input_file) \<Rightarrow> string \<Rightarrow> error + string list" where
  "read_input input_files inputFileName =
     (case input_files inputFileName of
        Missing \<Rightarrow> Inl (CouldNotOpen inputFileName)
      | Unreadable \<Rightarrow> Inl (CouldNotRead inputFileName)
      | Unfinished \<Rightarrow> Inl (EndNotReached inputFileName)
      | Content lines \<Rightarrow> Inr lines)"

text \<open>
  The loop of lines 108 to 123: each line gets a new row, the values of the line are
  copied into it, and the run stops with the number of the line unless the stream of
  the line has reached its end.
\<close>

fun parse_lines :: "(string \<Rightarrow> 'a) \<Rightarrow> string \<Rightarrow> nat \<Rightarrow> string list \<Rightarrow> error + 'a list list" where
  "parse_lines strtod inputFileName nLine [] = Inr []"
| "parse_lines strtod inputFileName nLine (line # lines) =
     (let (row, st) = copy_doubles strtod (istringstream_of line)
      in if \<not> eofbit st then Inl (ParseError (nLine + 1) inputFileName)
         else case parse_lines strtod inputFileName (nLine + 1) lines of
                Inl e \<Rightarrow> Inl e
              | Inr matrix \<Rightarrow> Inr (row # matrix))"

subsection \<open>Validation\<close>

text \<open>
  \<open>std::remove_if\<close> moves the elements that do not satisfy the predicate to the front,
  in their order, and returns the end of that range; \<open>erase\<close> then cuts the vector
  there (lines 126 to 129). The result below is the vector after the cut.
\<close>

fun remove_if :: "('a \<Rightarrow> bool) \<Rightarrow> 'a list \<Rightarrow> 'a list" where
  "remove_if pred [] = []"
| "remove_if pred (x # xs) = (if pred x then remove_if pred xs else x # remove_if pred xs)"

definition remove_empty_rows :: "'a list list \<Rightarrow> 'a list list" where
  "remove_empty_rows matrix = remove_if (\<lambda>row. row = []) matrix"

text \<open>The loop of lines 136 to 144; \<open>n\<close> is \<open>matrix.front().size()\<close>.\<close>

fun check_rows :: "nat \<Rightarrow> nat \<Rightarrow> 'a list list \<Rightarrow> error + unit" where
  "check_rows n nLine [] = Inr ()"
| "check_rows n nLine (row # rows) =
     (if length row \<noteq> n then Inl (RaggedMatrixError (nLine + 1))
      else check_rows n (nLine + 1) rows)"

definition validate :: "string \<Rightarrow> 'a list list \<Rightarrow> error + 'a list list" where
  "validate inputFileName parsed =
     (let matrix = remove_empty_rows parsed
      in case matrix of
           [] \<Rightarrow> Inl (EmptyMatrixError inputFileName)
         | front # _ \<Rightarrow>
             (case check_rows (length front) 0 matrix of
                Inl e \<Rightarrow> Inl e
              | Inr _ \<Rightarrow> Inr matrix))"

subsection \<open>Transposition\<close>

text \<open>
  Modelled from the spec: \<open>cu::for_each\<close> over two ranges, of cpp\_utils/more\_algorithms.h,
  is not among the sources. The spec's transposer puts element \<open>j\<close> of every input row, in
  order, into output row \<open>j\<close>; so the function is applied to the elements of the two
  ranges pairwise, in order, and changes the element of the second range. The source
  calls it on ranges of one length only (the rows have passed \<open>check_rows\<close>); where the
  lengths differ the model stops at the end of the shorter range.
\<close>

fun for_each2 :: "('a \<Rightarrow> 'b \<Rightarrow> 'b) \<Rightarrow> 'a list \<Rightarrow> 'b list \<Rightarrow> 'b list" where
  "for_each2 f (x # xs) (t # ts) = f x t # for_each2 f xs ts"
| "for_each2 f [] ts = ts"
| "for_each2 f xs [] = []"

text \<open>
  Lines 148 to 155. \<open>matrix.front()\<close> of an empty vector is undefined in C++; the
  matrix has passed \<open>validate\<close> and is not empty; the model gives the empty matrix there.
\<close>

definition transpose_matrix :: "'a list list \<Rightarrow> 'a list list" where
  "transpose_matrix matrix =
     (case matrix of
        [] \<Rightarrow> []
      | front # _ \<Rightarrow>
          fold (\<lambda>row transposed. for_each2 (\<lambda>x t. t @ [x]) row transposed)
               matrix (replicate (length front) []))"

subsection \<open>The output file names\<close>

text \<open>
  Modelled from the spec: \<open>cu::findBoyerMoore\<close>, of cpp\_utils/more\_algorithms.h, is not
  among the sources. The spec asks for an exact search of the token as a contiguous
  substring that returns the leftmost match. The result is the offset of the returned
  iterator from the begin of the text; the end of the text, its length, says that the
  token does not occur.
\<close>

fun findBoyerMoore :: "string \<Rightarrow> string \<Rightarrow> nat" where
  "findBoyerMoore token [] = 0"
| "findBoyerMoore token (c # cs) =
     (if prefix token (c # cs) then 0 else Suc (findBoyerMoore token cs))"

text \<open>Lines 160 to 174: the two parts of the pattern around the token.\<close>

definition plan :: "string \<Rightarrow> string \<Rightarrow> error + string \<times> string" where
  "plan replaceString outputFileNames =
     (if replaceString = [] then Inl EmptyTokenError
      else let it = findBoyerMoore replaceString outputFileNames
           in if it = length outputFileNames then Inl TokenNotFoundError
              else Inr (take it outputFileNames,
                        drop (it + length replaceString) outputFileNames))"

definition file_name :: "string \<times> string \<Rightarrow> nat \<Rightarrow> string" where
  "file_name parts nLine = fst parts @ to_string nLine @ snd parts"

subsection \<open>Writing\<close>

text \<open>
  The files on disk are a map from names to contents. What decides whether an output
  stream is good is outside the program: \<open>room name\<close> is \<open>None\<close> when the file cannot
  be opened for writing, and \<open>Some n\<close> when it can and holds at most \<open>n\<close> characters.
  An \<open>std::ofstream\<close> is a flag, whether it is good, together with the files; every row
  ends with \<open>std::endl\<close>, which flushes, so the content is on disk when the source tests
  \<open>good()\<close>.
\<close>

type_synonym files = "string \<rightharpoonup> string"

definition open_ofstream :: "(string \<Rightarrow> nat option) \<Rightarrow> string \<Rightarrow> files \<Rightarrow> bool \<times> files" where
  "open_ofstream room name files =
     (case room name of
        None \<Rightarrow> (False, files)
      | Some n \<Rightarrow> (True, files(name \<mapsto> [])))"

text \<open>
  \<open>std::copy(begin(row), end(row), std::ostream_iterator<double>(outputFile, " "));
  outputFile << std::endl\<close>: the delimiter follows every value.
\<close>

definition row_text :: "('a \<Rightarrow> string) \<Rightarrow> 'a list \<Rightarrow> string" where
  "row_text dtoa row = concat (map (\<lambda>x. dtoa x @ '' '') row) @ [CHR 0x0A]"

definition put_row ::
  "(string \<Rightarrow> nat option) \<Rightarrow> ('a \<Rightarrow> string) \<Rightarrow> string \<Rightarrow> 'a list \<Rightarrow> bool \<times> files \<Rightarrow> bool \<times> files" where
  "put_row room dtoa name row stream =
     (case stream of (good, files) \<Rightarrow>
        if \<not> good then (False, files)
        else case (room name, files name) of
               (Some n, Some old) \<Rightarrow>
                 if length (old @ row_text dtoa row) \<le> n
                 then (True, files(name \<mapsto> old @ row_text dtoa row))
                 else (False, files(name \<mapsto> take n (old @ row_text dtoa row)))
             | _ \<Rightarrow> (False, files))"

text \<open>
  A text fits a file when the file can be opened for writing and has room for the text:
  then, and only then, the stream of a new file is good after the text.
\<close>

definition fits :: "(string \<Rightarrow> nat option) \<Rightarrow> string \<Rightarrow> string \<Rightarrow> bool" where
  "fits room name s = (case room name of None \<Rightarrow> False | Some n \<Rightarrow> length s \<le> n)"

text \<open>Lines 175 to 192: one file for each row.\<close>

fun write_each_row ::
  "(string \<Rightarrow> nat option) \<Rightarrow> ('a \<Rightarrow> string) \<Rightarrow> string \<times> string \<Rightarrow> nat \<Rightarrow> 'a list list \<Rightarrow> files
   \<Rightarrow> (error + unit) \<times> files" where
  "write_each_row room dtoa parts nLine [] files = (Inr (), files)"
| "write_each_row room dtoa parts nLine (row # rows) files =
     (let outputFileName = file_name parts (nLine + 1);
          (good, files') = put_row room dtoa outputFileName row
                             (open_ofstream room outputFileName files)
      in if \<not> good then (Inl (WriteError (nLine + 1) outputFileName), files')
         else write_each_row room dtoa parts (nLine + 1) rows files')"

text \<open>Lines 196 to 209: all rows into one file.\<close>

fun write_rows ::
  "(string \<Rightarrow> nat option) \<Rightarrow> ('a \<Rightarrow> string) \<Rightarrow> string \<Rightarrow> nat \<Rightarrow> 'a list list \<Rightarrow> bool \<times> files
   \<Rightarrow> (error + unit) \<times> files" where
  "write_rows room dtoa name nLine [] stream = (Inr (), snd stream)"
| "write_rows room dtoa name nLine (row # rows) stream =
     (let (good, files') = put_row room dtoa name row stream
      in if \<not> good then (Inl (WriteError (nLine + 1) name), files')
         else write_rows room dtoa name (nLine + 1) rows (good, files'))"

subsection \<open>The run\<close>

record request =
  inputFileName :: string
  shallTranspose :: bool
  shallCreateFileForEachRow :: bool
  outputFileNames :: string
  replaceString :: string

record 'a platform =
  input_files_of :: "string \<Rightarrow> input_file"
  room_of :: "string \<Rightarrow> nat option"
  strtod_of :: "string \<Rightarrow> 'a"
  dtoa_of :: "'a \<Rightarrow> string"

text \<open>Lines 94 to 144: the matrix that the run has read and checked.\<close>

definition load_matrix :: "'a platform \<Rightarrow> request \<Rightarrow> error + 'a list list" where
  "load_matrix p req =
     (case read_input (input_files_of p) (inputFileName req) of
        Inl e \<Rightarrow> Inl e
      | Inr lines \<Rightarrow>
          (case parse_lines (strtod_of p) (inputFileName req) 0 lines of
             Inl e \<Rightarrow> Inl e
           | Inr parsed \<Rightarrow> validate (inputFileName req) parsed))"

text \<open>Lines 146 to 156: the matrix that is written.\<close>

definition final_matrix :: "request \<Rightarrow> 'a list list \<Rightarrow> 'a list list" where
  "final_matrix req matrix = (if shallTranspose req then transpose_matrix matrix else matrix)"

text \<open>Lines 158 to 210.\<close>

definition write_matrix ::
  "'a platform \<Rightarrow> request \<Rightarrow> 'a list list \<Rightarrow> files \<Rightarrow> (error + unit) \<times> files" where
  "write_matrix p req matrix files =
     (if shallCreateFileForEachRow req
      then (case plan (replaceString req) (outputFileNames req) of
              Inl e \<Rightarrow> (Inl e, files)
            | Inr parts \<Rightarrow> write_each_row (room_of p) (dtoa_of p) parts 0 matrix files)
      else write_rows (room_of p) (dtoa_of p) (outputFileNames req) 0 matrix
             (open_ofstream (room_of p) (outputFileNames req) files))"

text \<open>
  The whole lambda: the first exception ends the run, and the files written before it
  stay as they are. \<open>Inr ()\<close> is the run that reaches the status message.
\<close>

definition runConversion :: "'a platform \<Rightarrow> request \<Rightarrow> files \<Rightarrow> (error + unit) \<times> files" where
  "runConversion p req files =
     (case load_matrix p req of
        Inl e \<Rightarrow> (Inl e, files)
      | Inr matrix \<Rightarrow> write_matrix p req (final_matrix req matrix) files)"

subsection \<open>A decimal model of the two conversions\<close>

text \<open>
  An instance of the two parameters for the examples: the value of a text is the
  rational number it denotes, \<open>dec_strtod\<close> above, and a value is written as
  \<open>operator<<\<close> writes a \<open>double\<close> by default, that is as \<open>printf\<close> does with \<open>%g\<close>:
  six significant digits, no trailing zeros, and an exponent when it is below -4 or at
  least 6. The instance is exact where a \<open>double\<close> is rounded to 53 binary digits, and it
  has one zero. So it can differ from the program on a value that lies halfway between
  two texts of six digits and on a negative zero: for the text \<open>1.000005\<close> the program
  writes \<open>1.00001\<close> and the instance \<open>1\<close>, for \<open>-0\<close> the program writes \<open>-0\<close> and the
  instance \<open>0\<close>. The examples use the values 1 to 6 only, which are the same in both.
\<close>


definition round_half_even :: "rat \<Rightarrow> int" where
  "round_half_even r =
     (let f = \<lfloor>r\<rfloor>; d = r - of_int f
      in if d < 1 / 2 then f else if 1 / 2 < d then f + 1 else if even f then f else f + 1)"

definition strip_zeros :: "string \<Rightarrow> string" where
  "strip_zeros s = rev (dropWhile (\<lambda>c. c = CHR ''0'') (rev s))"

definition dec_dtoa :: "rat \<Rightarrow> string" where
  "dec_dtoa v =
     (if v = 0 then ''0''
      else
        let a = \<bar>v\<bar>;
            (p, q) = quotient_of a;
            X0 = int (length (to_string (nat p))) - int (length (to_string (nat q)));
            X1 = (if a < power_int 10 X0 then X0 - 1 else X0);
            n0 = round_half_even (a * power_int 10 (5 - X1));
            (n, X) = (if n0 = 1000000 then (100000, X1 + 1) else (n0, X1));
            ds = to_string (nat n);
            sg = (if v < 0 then ''-'' else [])
        in if X < - 4 \<or> 6 \<le> X
           then (let frac = strip_zeros (tl ds);
                     e = to_string (nat \<bar>X\<bar>)
                 in sg @ hd ds # (if frac = [] then [] else CHR ''.'' # frac) @ CHR ''e''
                      # (if X < 0 then CHR ''-'' else CHR ''+'')
                      # (if length e < 2 then CHR ''0'' # e else e))
           else if 0 \<le> X
           then (let frac = strip_zeros (drop (nat X + 1) ds)
                 in sg @ take (nat X + 1) ds @ (if frac = [] then [] else CHR ''.'' # frac))
           else sg @ ''0.'' @ replicate (nat (- X - 1)) (CHR ''0'') @ strip_zeros ds)"

text \<open>
  The platform of the examples: the given input files, room for 4096 characters in
  every output file, and the decimal conversions.
\<close>

definition decimal_platform :: "(string \<Rightarrow> input_file) \<Rightarrow> rat platform" where
  "decimal_platform fs =
     \<lparr>input_files_of = fs, room_of = (\<lambda>name. Some 4096),
      strtod_of = dec_strtod, dtoa_of = dec_dtoa\<rparr>"

definition one_file :: "string \<Rightarrow> string list \<Rightarrow> string \<Rightarrow> input_file" where
  "one_file name lines = (\<lambda>f. if f = name then Content lines else Missing)"

text \<open>The requests of the examples read \<open>in.txt\<close>.\<close>

definition example_request :: "bool \<Rightarrow> bool \<Rightarrow> string \<Rightarrow> string \<Rightarrow> request" where
  "example_request tr sp out token =
     \<lparr>inputFileName = ''in.txt'', shallTranspose = tr,
      shallCreateFileForEachRow = sp, outputFileNames = out, replaceString = token\<rparr>"

section \<open>Basic facts\<close>

subsection \<open>Every successful extraction shortens the unread text\<close>

lemma scan_sign_length: "scan_sign s = (a, r) \<Longrightarrow> length a + length r = length s"
  by (auto simp: scan_sign_def split: list.splits if_splits)

lemma scan_digits_length: "scan_digits s = (a, r) \<Longrightarrow> length a + length r = length s"
proof -
  assume "scan_digits s = (a, r)"
  then have "a @ r = s" by (auto simp: scan_digits_def)
  then show ?thesis by (metis length_append)
qed

lemma scan_float_length:
  assumes "scan_float s = (x, r, ok)"
  shows "length x + length r = length s"
proof -
  obtain sg s1 where a: "scan_sign s = (sg, s1)" by force
  obtain ip s2 where b: "scan_digits s1 = (ip, s2)" by force
  have la: "length sg + length s1 = length s" using a by (rule scan_sign_length)
  have lb: "length ip + length s2 = length s1" using b by (rule scan_digits_length)
  obtain fp s3 where c:
    "(case s2 of c # cs \<Rightarrow> if c = CHR ''.'' then (let (d, r) = scan_digits cs in (c # d, r)) else ([], s2)
       | [] \<Rightarrow> ([], s2)) = (fp, s3)" by force
  have lc: "length fp + length s3 = length s2"
    using c by (auto split: list.splits if_splits prod.splits dest: scan_digits_length)
  show ?thesis
  proof (cases s3)
    case Nil
    with assms a b c la lb lc show ?thesis by (auto simp: scan_float_def)
  next
    case (Cons e cs)
    show ?thesis
    proof (cases "(e = CHR ''e'' \<or> e = CHR ''E'') \<and> (ip \<noteq> [] \<or> 1 < length fp)")
      case False
      with assms a b c la lb lc Cons show ?thesis by (auto simp: scan_float_def)
    next
      case True
      obtain sg2 r1 where d: "scan_sign cs = (sg2, r1)" by force
      obtain d2 r2 where e: "scan_digits r1 = (d2, r2)" by force
      have ld: "length sg2 + length r1 = length cs" using d by (rule scan_sign_length)
      have le: "length d2 + length r2 = length r1" using e by (rule scan_digits_length)
      from assms a b c Cons True d e have "x = sg @ ip @ fp @ CHR ''e'' # sg2 @ d2" "r = r2"
        by (auto simp: scan_float_def)
      with la lb lc ld le Cons show ?thesis by simp
    qed
  qed
qed

lemma scan_float_ok_nonempty:
  assumes "scan_float s = (x, r, True)"
  shows "x \<noteq> []"
  using assms
  by (auto simp: scan_float_def Let_def split: list.splits if_splits prod.splits)

lemma extract_shorter:
  assumes "extract_double strtod st = (Some v, st')"
  shows "length (unread st') < length (unread st)"
proof -
  let ?s = "dropWhile isspace (unread st)"
  obtain x r ok where sc: "scan_float ?s = (x, r, ok)" by (metis prod_cases3)
  from assms sc have ok: "ok" and r: "unread st' = r"
    by (auto simp: extract_double_def Let_def split: if_splits)
  from sc ok have "x \<noteq> []" by (auto dest: scan_float_ok_nonempty)
  moreover have "length x + length r = length ?s" using sc by (rule scan_float_length)
  moreover have "length ?s \<le> length (unread st)" by (rule length_dropWhile_le)
  ultimately show ?thesis using r by (cases x) auto
qed

termination copy_doubles
  by (relation "measure (\<lambda>(strtod, st). length (unread st))") (auto dest: extract_shorter [OF sym])


declare copy_doubles.simps [simp del]

subsection \<open>The decimal text of a number names the number\<close>

lemma to_string_nonempty: "to_string n \<noteq> []"
  by (subst to_string.simps) simp

lemma digit_char_inj: "a < 10 \<Longrightarrow> b < 10 \<Longrightarrow> digit_char a = digit_char b \<Longrightarrow> a = b"
proof -
  assume a: "a < 10" and b: "b < 10" and e: "digit_char a = digit_char b"
  have d: "distinct ''0123456789''" by simp
  have "length ''0123456789'' = 10" by simp
  with a b e d show "a = b" unfolding digit_char_def
    by (metis nth_eq_iff_index_eq)
qed

lemma to_string_inj: "to_string m = to_string n \<Longrightarrow> m = n"
proof (induction m arbitrary: n rule: to_string.induct)
  case (1 m)
  show ?case
  proof (cases "m < 10")
    case True
    then have sm: "to_string m = [digit_char m]" by (subst to_string.simps) simp
    have n10: "n < 10"
    proof (rule ccontr)
      assume "\<not> n < 10"
      then have "to_string n = to_string (n div 10) @ [digit_char (n mod 10)]"
        by (subst to_string.simps) simp
      with sm "1.prems" to_string_nonempty [of "n div 10"] show False by simp
    qed
    then have "to_string n = [digit_char n]" by (subst to_string.simps) simp
    with sm "1.prems" True n10 show ?thesis by (auto dest: digit_char_inj)
  next
    case False
    then have sm: "to_string m = to_string (m div 10) @ [digit_char (m mod 10)]"
      by (subst to_string.simps) simp
    have n10: "\<not> n < 10"
    proof
      assume "n < 10"
      then have "to_string n = [digit_char n]" by (subst to_string.simps) simp
      with sm "1.prems" to_string_nonempty [of "m div 10"] show False by simp
    qed
    then have sn: "to_string n = to_string (n div 10) @ [digit_char (n mod 10)]"
      by (subst to_string.simps) simp
    from sm sn "1.prems" have e1: "to_string (m div 10) = to_string (n div 10)"
      and e2: "digit_char (m mod 10) = digit_char (n mod 10)" by simp_all
    from "1.IH" [OF False e1] have d: "m div 10 = n div 10" .
    have "m mod 10 = n mod 10" using e2 by (auto intro: digit_char_inj)
    with d show ?thesis by (metis div_mult_mod_eq)
  qed
qed

lemma file_name_inj: "file_name parts i = file_name parts j \<Longrightarrow> i = j"
  by (auto simp: file_name_def dest: to_string_inj)

subsection \<open>The search for the token\<close>

lemma findBoyerMoore_le: "findBoyerMoore token str \<le> length str"
  by (induction str) simp_all

lemma findBoyerMoore_found:
  "findBoyerMoore token str < length str \<Longrightarrow> prefix token (drop (findBoyerMoore token str) str)"
  by (induction str) (simp_all split: if_splits)

lemma findBoyerMoore_leftmost:
  "str = a @ token @ b \<Longrightarrow> findBoyerMoore token str \<le> length a"
proof (induction str arbitrary: a)
  case Nil
  then show ?case by simp
next
  case (Cons c cs)
  show ?case
  proof (cases a)
    case Nil
    with Cons.prems have "prefix token (c # cs)" by simp
    then show ?thesis by simp
  next
    case (Cons x a')
    with Cons.prems have "cs = a' @ token @ b" by simp
    from Cons.IH [OF this] show ?thesis using Cons by simp
  qed
qed

lemma findBoyerMoore_split:
  assumes "findBoyerMoore token str < length str"
  shows "str = take (findBoyerMoore token str) str @ token @
           drop (findBoyerMoore token str + length token) str"
proof -
  let ?i = "findBoyerMoore token str"
  from findBoyerMoore_found [OF assms] obtain r where r: "drop ?i str = token @ r"
    by (auto simp: prefix_def)
  then have "drop (length token) (drop ?i str) = r" by simp
  then have "drop (?i + length token) str = r" by (simp add: add.commute)
  with r show ?thesis by (metis append_take_drop_id)
qed

subsection \<open>The transposed matrix, row by row\<close>

lemma length_for_each2: "length (for_each2 f xs ts) = length ts"
  by (induction f xs ts rule: for_each2.induct) simp_all

lemma nth_for_each2:
  "j < length xs \<Longrightarrow> j < length ts \<Longrightarrow> for_each2 f xs ts ! j = f (xs ! j) (ts ! j)"
proof (induction f xs ts arbitrary: j rule: for_each2.induct)
  case (1 f x xs t ts)
  then show ?case by (cases j) simp_all
qed simp_all

lemma for_each2_push_back:
  assumes "length row = length acc"
  shows "for_each2 (\<lambda>x t. t @ [x]) row acc = map (\<lambda>j. acc ! j @ [row ! j]) [0..<length acc]"
  by (rule nth_equalityI) (use assms in \<open>simp_all add: length_for_each2 nth_for_each2\<close>)

lemma fold_push_back:
  assumes "\<forall>row\<in>set rows. length row = length acc"
  shows "fold (\<lambda>row transposed. for_each2 (\<lambda>x t. t @ [x]) row transposed) rows acc =
         map (\<lambda>j. acc ! j @ map (\<lambda>row. row ! j) rows) [0..<length acc]"
  using assms
proof (induction rows arbitrary: acc)
  case Nil
  show ?case by (simp add: map_nth)
next
  case (Cons row rows)
  let ?acc = "for_each2 (\<lambda>x t. t @ [x]) row acc"
  have len: "length ?acc = length acc" by (rule length_for_each2)
  have "\<forall>r\<in>set rows. length r = length ?acc" using Cons.prems len by simp
  from Cons.IH [OF this] have
    "fold (\<lambda>row transposed. for_each2 (\<lambda>x t. t @ [x]) row transposed) rows ?acc =
       map (\<lambda>j. ?acc ! j @ map (\<lambda>row. row ! j) rows) [0..<length acc]"
    by (simp only: len)
  moreover have "\<And>j. j < length acc \<Longrightarrow> ?acc ! j = acc ! j @ [row ! j]"
    using Cons.prems by (simp add: nth_for_each2)
  ultimately show ?case by simp
qed

lemma transpose_matrix_eq:
  assumes "matrix \<noteq> []" and "\<forall>row\<in>set matrix. length row = length (hd matrix)"
  shows "transpose_matrix matrix = map (\<lambda>j. map (\<lambda>row. row ! j) matrix) [0..<length (hd matrix)]"
proof -
  obtain front rest where m: "matrix = front # rest" using assms(1) by (cases matrix) auto
  have "\<forall>row\<in>set matrix. length row = length (replicate (length front) ([]::'a list))"
    using assms(2) m by simp
  from fold_push_back [OF this] show ?thesis
    by (simp add: transpose_matrix_def m)
qed

subsection \<open>The files after the rows are written\<close>

lemma new_file_fits:
  "fits room name (row_text dtoa row) \<Longrightarrow>
   put_row room dtoa name row (open_ofstream room name files) =
     (True, files(name \<mapsto> row_text dtoa row))"
  by (auto simp: fits_def put_row_def open_ofstream_def split: option.splits)

lemma new_file_fails:
  "\<not> fits room name (row_text dtoa row) \<Longrightarrow>
   fst (put_row room dtoa name row (open_ofstream room name files)) = False"
  by (auto simp: fits_def put_row_def open_ofstream_def split: option.splits)

lemma new_file_frame:
  "other \<noteq> name \<Longrightarrow>
   snd (put_row room dtoa name row (open_ofstream room name files)) other = files other"
  by (auto simp: put_row_def open_ofstream_def split: option.splits)

lemma write_each_row_frame:
  "\<forall>i<length rows. other \<noteq> file_name parts (Suc (k + i)) \<Longrightarrow>
   snd (write_each_row room dtoa parts k rows files) other = files other"
proof (induction rows arbitrary: k files)
  case Nil
  show ?case by simp
next
  case (Cons row rows)
  let ?name = "file_name parts (k + 1)"
  obtain good files' where s:
    "put_row room dtoa ?name row (open_ofstream room ?name files) = (good, files')"
    by force
  have "other \<noteq> ?name" using Cons.prems by auto
  then have f: "files' other = files other"
    using new_file_frame [of other ?name room dtoa row files] s by simp
  have "\<forall>i<length rows. other \<noteq> file_name parts (Suc (k + 1 + i))"
    using Cons.prems by auto
  from Cons.IH [OF this] f s show ?case by (simp add: Let_def)
qed

lemma write_each_row_Cons_fits:
  assumes "fits room (file_name parts (Suc k)) (row_text dtoa row)"
  shows "write_each_row room dtoa parts k (row # rows) files =
         write_each_row room dtoa parts (Suc k) rows
           (files(file_name parts (Suc k) \<mapsto> row_text dtoa row))"
  using new_file_fits [OF assms, of files] by simp

lemma write_each_row_Cons_fails:
  assumes "\<not> fits room (file_name parts (Suc k)) (row_text dtoa row)"
  shows "fst (write_each_row room dtoa parts k (row # rows) files) =
           Inl (WriteError (Suc k) (file_name parts (Suc k))) \<and>
         (\<forall>other. other \<noteq> file_name parts (Suc k) \<longrightarrow>
            snd (write_each_row room dtoa parts k (row # rows) files) other = files other)"
proof -
  let ?name = "file_name parts (Suc k)"
  obtain good files' where s:
    "put_row room dtoa ?name row (open_ofstream room ?name files) = (good, files')"
    by force
  have bad: "\<not> good" using new_file_fails [OF assms, of files] s by simp
  have "\<And>other. other \<noteq> ?name \<Longrightarrow> files' other = files other"
    using new_file_frame [of _ ?name room dtoa row files] s by simp
  with s bad show ?thesis by simp
qed

lemma write_each_row_ok:
  assumes "\<forall>i<length rows. fits room (file_name parts (Suc (k + i))) (row_text dtoa (rows ! i))"
  shows "fst (write_each_row room dtoa parts k rows files) = Inr () \<and>
         (\<forall>i<length rows. snd (write_each_row room dtoa parts k rows files)
                             (file_name parts (Suc (k + i))) = Some (row_text dtoa (rows ! i)))"
  using assms
proof (induction rows arbitrary: k files)
  case Nil
  show ?case by simp
next
  case (Cons row rows)
  let ?name = "file_name parts (Suc k)"
  let ?files = "files(?name \<mapsto> row_text dtoa row)"
  let ?res = "write_each_row room dtoa parts (Suc k) rows ?files"
  have "fits room ?name (row_text dtoa row)" using Cons.prems by force
  then have step: "write_each_row room dtoa parts k (row # rows) files = ?res"
    by (rule write_each_row_Cons_fits)
  have rest: "\<forall>i<length rows. fits room (file_name parts (Suc (Suc k + i))) (row_text dtoa (rows ! i))"
    using Cons.prems by auto
  from Cons.IH [OF rest, of ?files]
  have ih1: "fst ?res = Inr ()"
    and ih2: "\<And>i. i < length rows \<Longrightarrow>
                snd ?res (file_name parts (Suc (Suc k + i))) = Some (row_text dtoa (rows ! i))"
    by blast+
  have first: "snd ?res ?name = Some (row_text dtoa row)"
  proof -
    have "\<forall>i<length rows. ?name \<noteq> file_name parts (Suc (Suc k + i))"
      by (auto dest: file_name_inj)
    then have "snd ?res ?name = ?files ?name" by (rule write_each_row_frame)
    then show ?thesis by simp
  qed
  have "\<forall>i<length (row # rows). snd ?res (file_name parts (Suc (k + i))) =
           Some (row_text dtoa ((row # rows) ! i))"
  proof (intro allI impI)
    fix i assume i: "i < length (row # rows)"
    show "snd ?res (file_name parts (Suc (k + i))) = Some (row_text dtoa ((row # rows) ! i))"
    proof (cases i)
      case 0
      with first show ?thesis by simp
    next
      case (Suc i')
      with i ih2 [of i'] show ?thesis by simp
    qed
  qed
  with ih1 show ?case unfolding step by blast
qed

lemma write_each_row_append:
  assumes "fst (write_each_row room dtoa parts k xs files) = Inr ()"
  shows "write_each_row room dtoa parts k (xs @ ys) files =
         write_each_row room dtoa parts (k + length xs) ys
           (snd (write_each_row room dtoa parts k xs files))"
  using assms
proof (induction xs arbitrary: k files)
  case Nil
  show ?case by simp
next
  case (Cons row xs)
  let ?name = "file_name parts (k + 1)"
  obtain good files' where s:
    "put_row room dtoa ?name row (open_ofstream room ?name files) = (good, files')"
    by force
  show ?case
  proof (cases good)
    case False
    with s Cons.prems show ?thesis by simp
  next
    case True
    with s Cons.prems have "fst (write_each_row room dtoa parts (k + 1) xs files') = Inr ()"
      by simp
    from Cons.IH [OF this] s True show ?thesis by simp
  qed
qed

lemma write_each_row_fail:
  assumes j: "j < length rows"
    and before: "\<forall>i<j. fits room (file_name parts (Suc (k + i))) (row_text dtoa (rows ! i))"
    and at: "\<not> fits room (file_name parts (Suc (k + j))) (row_text dtoa (rows ! j))"
  shows "fst (write_each_row room dtoa parts k rows files) =
           Inl (WriteError (Suc (k + j)) (file_name parts (Suc (k + j)))) \<and>
         (\<forall>i<j. snd (write_each_row room dtoa parts k rows files)
                    (file_name parts (Suc (k + i))) = Some (row_text dtoa (rows ! i))) \<and>
         (\<forall>i>j. snd (write_each_row room dtoa parts k rows files)
                    (file_name parts (Suc (k + i))) = files (file_name parts (Suc (k + i))))"
proof -
  let ?name = "file_name parts (Suc (k + j))"
  obtain xs row ys where rows: "rows = xs @ row # ys" and len: "length xs = j"
    using j id_take_nth_drop [of j rows] by (metis length_take min.absorb2 less_imp_le)
  have rowj: "rows ! j = row" and rowi: "\<And>i. i < j \<Longrightarrow> rows ! i = xs ! i"
    using rows len by (simp_all add: nth_append)
  let ?mid = "snd (write_each_row room dtoa parts k xs files)"
  let ?res = "write_each_row room dtoa parts (k + j) (row # ys) ?mid"
  have "\<forall>i<length xs. fits room (file_name parts (Suc (k + i))) (row_text dtoa (xs ! i))"
    using before len rowi by simp
  from write_each_row_ok [OF this, of files]
  have ok: "fst (write_each_row room dtoa parts k xs files) = Inr ()"
    and written: "\<And>i. i < j \<Longrightarrow> ?mid (file_name parts (Suc (k + i))) = Some (row_text dtoa (xs ! i))"
    using len by blast+
  have res: "write_each_row room dtoa parts k rows files = ?res"
    unfolding rows using write_each_row_append [OF ok, of "row # ys"] len by simp
  have "\<not> fits room (file_name parts (Suc (k + j))) (row_text dtoa row)"
    using at rowj by simp
  from write_each_row_Cons_fails [OF this, of ys ?mid]
  have err: "fst ?res = Inl (WriteError (Suc (k + j)) ?name)"
    and other: "\<And>other. other \<noteq> ?name \<Longrightarrow> snd ?res other = ?mid other"
    by blast+
  have a: "\<forall>i<j. snd ?res (file_name parts (Suc (k + i))) = Some (row_text dtoa (rows ! i))"
  proof (intro allI impI)
    fix i assume i: "i < j"
    then have "file_name parts (Suc (k + i)) \<noteq> ?name" by (auto dest: file_name_inj)
    from other [OF this] written [OF i] rowi [OF i]
    show "snd ?res (file_name parts (Suc (k + i))) = Some (row_text dtoa (rows ! i))" by simp
  qed
  have b: "\<forall>i>j. snd ?res (file_name parts (Suc (k + i))) = files (file_name parts (Suc (k + i)))"
  proof (intro allI impI)
    fix i assume i: "j < i"
    then have ne: "file_name parts (Suc (k + i)) \<noteq> ?name" by (auto dest: file_name_inj)
    have "\<forall>i'<length xs. file_name parts (Suc (k + i)) \<noteq> file_name parts (Suc (k + i'))"
      using i len by (auto dest: file_name_inj)
    then have "?mid (file_name parts (Suc (k + i))) = files (file_name parts (Suc (k + i)))"
      by (rule write_each_row_frame)
    with other [OF ne]
    show "snd ?res (file_name parts (Suc (k + i))) = files (file_name parts (Suc (k + i)))" by simp
  qed
  from err a b show ?thesis unfolding res by blast
qed

lemma write_rows_ok:
  assumes "room name = Some n" and "files name = Some old"
    and "length old + length (concat (map (row_text dtoa) rows)) \<le> n"
  shows "write_rows room dtoa name k rows (True, files) =
           (Inr (), files(name \<mapsto> old @ concat (map (row_text dtoa) rows)))"
  using assms
proof (induction rows arbitrary: k files old)
  case Nil
  then show ?case by (simp add: map_upd_triv)
next
  case (Cons row rows)
  let ?files = "files(name \<mapsto> old @ row_text dtoa row)"
  have s: "put_row room dtoa name row (True, files) = (True, ?files)"
    using Cons.prems by (simp add: put_row_def)
  have "write_rows room dtoa name (k + 1) rows (True, ?files) =
          (Inr (), ?files(name \<mapsto> (old @ row_text dtoa row) @ concat (map (row_text dtoa) rows)))"
    using Cons.prems by (intro Cons.IH) simp_all
  then have "write_rows room dtoa name (k + 1) rows (True, ?files) =
          (Inr (), files(name \<mapsto> old @ concat (map (row_text dtoa) (row # rows))))"
    by simp
  with s show ?case by (simp del: fun_upd_apply)
qed

subsection \<open>Blank lines\<close>

lemma copy_doubles_blank:
  assumes "\<forall>c\<in>set line. isspace c"
  shows "copy_doubles strtod (istringstream_of line) =
           ([], \<lparr>unread = [], eofbit = True, failbit = True\<rparr>)"
proof -
  have "dropWhile isspace line = []" using assms by simp
  then have "extract_double strtod (istringstream_of line) =
               (None, \<lparr>unread = [], eofbit = True, failbit = True\<rparr>)"
    by (simp add: extract_double_def istringstream_of_def)
  then show ?thesis by (subst copy_doubles.simps) simp
qed

lemma parse_lines_blank:
  assumes "\<forall>line\<in>set lines. \<forall>c\<in>set line. isspace c"
  shows "parse_lines strtod path nLine lines = Inr (map (\<lambda>line. []) lines)"
  using assms
proof (induction lines arbitrary: nLine)
  case Nil
  show ?case by simp
next
  case (Cons line lines)
  then have "copy_doubles strtod (istringstream_of line) =
               ([], \<lparr>unread = [], eofbit = True, failbit = True\<rparr>)"
    by (intro copy_doubles_blank) simp
  with Cons show ?case by simp
qed

subsection \<open>The checks of the matrix\<close>

lemma remove_if_filter: "remove_if pred xs = filter (\<lambda>x. \<not> pred x) xs"
  by (induction xs) simp_all

lemma remove_empty_rows_filter: "remove_empty_rows parsed = filter (\<lambda>row. row \<noteq> []) parsed"
  by (simp add: remove_empty_rows_def remove_if_filter)

lemma check_rows_error: "check_rows n nLine rows = Inl e \<Longrightarrow> \<exists>m. e = RaggedMatrixError m"
  by (induction rows arbitrary: nLine) (auto split: if_splits)

lemma check_rows_ok: "check_rows n nLine rows = Inr () \<longleftrightarrow> (\<forall>row\<in>set rows. length row = n)"
  by (induction rows arbitrary: nLine) auto

lemma check_rows_first:
  assumes "j < length rows" and "\<forall>i<j. length (rows ! i) = n" and "length (rows ! j) \<noteq> n"
  shows "check_rows n nLine rows = Inl (RaggedMatrixError (Suc (nLine + j)))"
  using assms
proof (induction rows arbitrary: nLine j)
  case Nil
  then show ?case by simp
next
  case (Cons row rows)
  show ?case
  proof (cases j)
    case 0
    with Cons.prems show ?thesis by simp
  next
    case (Suc j')
    have r: "length row = n" using Cons.prems(2) Suc by auto
    have "check_rows n (nLine + 1) rows = Inl (RaggedMatrixError (Suc (nLine + 1 + j')))"
      using Cons.prems Suc by (intro Cons.IH) auto
    with r Suc show ?thesis by simp
  qed
qed

lemma validate_Inr:
  assumes "validate path parsed = Inr matrix"
  shows "matrix = remove_empty_rows parsed \<and> matrix \<noteq> [] \<and> hd matrix \<noteq> [] \<and>
         (\<forall>row\<in>set matrix. length row = length (hd matrix))"
proof -
  let ?m = "remove_empty_rows parsed"
  from assms obtain front rest where m: "?m = front # rest"
    by (cases ?m) (auto simp: validate_def)
  with assms have c: "check_rows (length front) 0 ?m = Inr ()" and e: "matrix = ?m"
    by (auto simp: validate_def split: sum.splits)
  have "front \<in> set ?m" using m by simp
  then have "front \<noteq> []" by (simp add: remove_empty_rows_filter)
  with c e m show ?thesis by (simp add: check_rows_ok)
qed

lemma validate_empty_iff:
  "validate path parsed = Inl (EmptyMatrixError f) \<longleftrightarrow>
     f = path \<and> remove_empty_rows parsed = []"
proof (cases "remove_empty_rows parsed")
  case Nil
  then show ?thesis by (auto simp: validate_def)
next
  case (Cons front rest)
  then show ?thesis
    by (auto simp: validate_def split: sum.splits dest: check_rows_error)
qed

lemma validate_filter:
  "validate path parsed =
     (let rows = filter (\<lambda>row. row \<noteq> []) parsed
      in if rows = [] then Inl (EmptyMatrixError path)
         else case check_rows (length (hd rows)) 0 rows of
                Inl e \<Rightarrow> Inl e
              | Inr u \<Rightarrow> Inr rows)"
  by (cases "filter (\<lambda>row. row \<noteq> []) parsed")
     (simp_all add: validate_def remove_empty_rows_filter)

lemma load_matrix_Inr:
  assumes "load_matrix p req = Inr matrix"
  shows "matrix \<noteq> [] \<and> hd matrix \<noteq> [] \<and> (\<forall>row\<in>set matrix. length row = length (hd matrix))"
proof -
  from assms obtain parsed where "validate (inputFileName req) parsed = Inr matrix"
    by (auto simp: load_matrix_def split: sum.splits)
  from validate_Inr [OF this] show ?thesis by blast
qed

subsection \<open>The kinds of exceptions of each stage\<close>

lemma parse_lines_error:
  "parse_lines strtod path nLine lines = Inl e \<Longrightarrow> \<exists>n. e = ParseError n path"
  by (induction lines arbitrary: nLine) (auto split: prod.splits if_splits sum.splits)

lemma load_matrix_error:
  fixes p :: "'a platform"
  assumes "load_matrix p req = Inl e"
  shows "e \<noteq> EmptyTokenError \<and> e \<noteq> TokenNotFoundError \<and> (\<forall>n f. e \<noteq> WriteError n f)"
proof -
  let ?f = "inputFileName req"
  consider (read) "read_input (input_files_of p) ?f = Inl e"
    | (parse) lines where "parse_lines (strtod_of p) ?f 0 lines = Inl e"
    | (val) parsed :: "'a list list" where "validate ?f parsed = Inl e"
    using assms by (auto simp: load_matrix_def split: sum.splits)
  then show ?thesis
  proof cases
    case read
    then show ?thesis by (auto simp: read_input_def split: input_file.splits)
  next
    case parse
    then show ?thesis by (auto dest: parse_lines_error)
  next
    case val
    then show ?thesis
      by (auto simp: validate_def Let_def split: list.splits sum.splits dest: check_rows_error)
  qed
qed

lemma write_rows_error:
  "fst (write_rows room dtoa name nLine rows stream) = Inl e \<Longrightarrow> \<exists>n. e = WriteError n name"
  by (induction rows arbitrary: nLine stream) (auto split: prod.splits if_splits)

lemma findBoyerMoore_absent:
  assumes "\<forall>a b. str \<noteq> a @ token @ b"
  shows "findBoyerMoore token str = length str"
proof (rule ccontr)
  assume "findBoyerMoore token str \<noteq> length str"
  with findBoyerMoore_le [of token str] have "findBoyerMoore token str < length str" by simp
  from findBoyerMoore_split [OF this] assms show False by blast
qed

subsection \<open>The run, stage by stage\<close>

lemma runConversion_loaded:
  "load_matrix p req = Inr matrix \<Longrightarrow>
   runConversion p req files = write_matrix p req (final_matrix req matrix) files"
  by (simp add: runConversion_def)

subsection \<open>The example of two lines\<close>

lemmas scan_defs = scan_float_def scan_sign_def scan_digits_def isdigit_def isspace_def

lemma dec_strtod_values:
  "dec_strtod ''1'' = 1" "dec_strtod ''2'' = 2" "dec_strtod ''3'' = 3"
  "dec_strtod ''4'' = 4" "dec_strtod ''5'' = 5" "dec_strtod ''6'' = 6"
  by (simp_all add: dec_strtod_def scan_defs int_of_digits_def digit_value_def)

lemma in_range_values:
  "in_range ''1''" "in_range ''2''" "in_range ''3''"
  "in_range ''4''" "in_range ''5''" "in_range ''6''"
  by (simp_all add: in_range_def dec_strtod_values)

text \<open>
  A number out of the range of a \<open>double\<close> stops the line like a text that is no number:
  with the exception of line 120 when something follows it, silently at the end of the line.
\<close>

lemma out_of_range_values:
  "\<not> in_range ''1e309''" "in_range ''1e308''"
  by (simp_all add: in_range_def dec_strtod_def scan_defs int_of_digits_def digit_value_def)

lemma out_of_range_lines:
  "parse_lines strtod path 0 [''1e309 2''] = Inl (ParseError 1 path)"
  "parse_lines strtod path 0 [''2 1e309''] = Inr [[strtod ''2'']]"
  by (simp_all add: copy_doubles.simps extract_double_def istringstream_of_def scan_defs
      in_range_values out_of_range_values)

lemma example_rows:
  "copy_doubles strtod (istringstream_of ''1 2 3'') =
     ([strtod ''1'', strtod ''2'', strtod ''3''], \<lparr>unread = [], eofbit = True, failbit = True\<rparr>)"
  "copy_doubles strtod (istringstream_of ''4 5 6'') =
     ([strtod ''4'', strtod ''5'', strtod ''6''], \<lparr>unread = [], eofbit = True, failbit = True\<rparr>)"
  by (simp_all add: copy_doubles.simps extract_double_def istringstream_of_def scan_defs
      in_range_values)

lemma example_load:
  assumes "input_files_of p (inputFileName req) = Content [''1 2 3'', ''4 5 6'']"
  shows "load_matrix p req =
           Inr [[strtod_of p ''1'', strtod_of p ''2'', strtod_of p ''3''],
                [strtod_of p ''4'', strtod_of p ''5'', strtod_of p ''6'']]"
  using assms
  by (simp add: load_matrix_def read_input_def example_rows validate_def remove_empty_rows_def)

lemma to_string_values:
  "to_string (Suc 0) = ''1''"
  "to_string 1 = ''1''" "to_string 2 = ''2''" "to_string 3 = ''3''"
  "to_string 4 = ''4''" "to_string 5 = ''5''" "to_string 6 = ''6''"
  "to_string 100000 = ''100000''" "to_string 200000 = ''200000''" "to_string 300000 = ''300000''"
  "to_string 400000 = ''400000''" "to_string 500000 = ''500000''" "to_string 600000 = ''600000''"
  by (simp_all add: to_string.simps digit_char_def)

lemma dec_dtoa_values:
  "dec_dtoa 1 = ''1''" "dec_dtoa 2 = ''2''" "dec_dtoa 3 = ''3''"
  "dec_dtoa 4 = ''4''" "dec_dtoa 5 = ''5''" "dec_dtoa 6 = ''6''"
  by (simp_all add: dec_dtoa_def round_half_even_def strip_zeros_def to_string_values)

lemma example_decimal_load:
  "load_matrix (decimal_platform (one_file ''in.txt'' [''1 2 3'', ''4 5 6'']))
     (example_request tr sp out token) = Inr [[1, 2, 3], [4, 5, 6]]"
proof -
  let ?p = "decimal_platform (one_file ''in.txt'' [''1 2 3'', ''4 5 6''])"
  have "input_files_of ?p (inputFileName (example_request tr sp out token)) =
          Content [''1 2 3'', ''4 5 6'']"
    by (simp add: decimal_platform_def one_file_def example_request_def)
  from example_load [OF this] show ?thesis
    by (simp add: decimal_platform_def dec_strtod_values)
qed

lemma no_hash: "\<forall>a b. ''out.txt'' \<noteq> a @ ''#'' @ b"
proof (intro allI notI)
  fix a b :: string
  assume e: "''out.txt'' = a @ ''#'' @ b"
  have "CHR ''#'' \<in> set (a @ ''#'' @ b)" by simp
  then have "CHR ''#'' \<in> set ''out.txt''" by (simp only: e [symmetric])
  then show False by simp
qed


lemma runConversion_single:
  assumes "load_matrix p req = Inr m" and "\<not> shallCreateFileForEachRow req"
    and "room_of p (outputFileNames req) = Some n"
    and "length (concat (map (row_text (dtoa_of p)) (final_matrix req m))) \<le> n"
  shows "runConversion p req files =
           (Inr (), files(outputFileNames req \<mapsto>
                      concat (map (row_text (dtoa_of p)) (final_matrix req m))))"
proof -
  let ?name = "outputFileNames req"
  have o: "open_ofstream (room_of p) ?name files = (True, files(?name \<mapsto> []))"
    using assms(3) by (simp add: open_ofstream_def)
  have "write_rows (room_of p) (dtoa_of p) ?name 0 (final_matrix req m) (True, files(?name \<mapsto> [])) =
          (Inr (), (files(?name \<mapsto> []))(?name \<mapsto>
                      [] @ concat (map (row_text (dtoa_of p)) (final_matrix req m))))"
    using assms(3,4) by (intro write_rows_ok) simp_all
  with o assms(1,2) show ?thesis
    by (simp add: runConversion_def write_matrix_def)
qed

lemma runConversion_split:
  assumes "load_matrix p req = Inr m" and "shallCreateFileForEachRow req"
    and "plan (replaceString req) (outputFileNames req) = Inr parts"
  shows "runConversion p req files =
           write_each_row (room_of p) (dtoa_of p) parts 0 (final_matrix req m) files"
  using assms by (simp add: runConversion_def write_matrix_def)

lemma plan_examples:
  "plan ''#'' ''out_#.txt'' = Inr (''out_'', ''.txt'')"
  "plan ''aab'' ''xaaab_aab'' = Inr (''xa'', ''_aab'')"
  "plan ''#'' ''a#b#c'' = Inr (''a'', ''b#c'')"
  "plan ''#'' ''row_#.dat'' = Inr (''row_'', ''.dat'')"
  by (simp_all add: plan_def)

lemma file_names_distinct: "distinct (map (\<lambda>i. file_name parts (Suc i)) [0..<n])"
  by (auto simp: distinct_map intro!: inj_onI dest: file_name_inj)

lemma blank_lines_empty:
  assumes "input_files_of p (inputFileName req) = Content lines"
    and "\<forall>line\<in>set lines. \<forall>c\<in>set line. isspace c"
  shows "load_matrix p req = Inl (EmptyMatrixError (inputFileName req))"
proof -
  have "parse_lines (strtod_of p) (inputFileName req) 0 lines = Inr (map (\<lambda>line. []) lines)"
    using assms(2) by (rule parse_lines_blank)
  moreover have "remove_empty_rows (map (\<lambda>line. []) lines) = ([] :: 'a list list)"
    by (simp add: remove_empty_rows_filter)
  ultimately show ?thesis using assms(1)
    by (simp add: load_matrix_def read_input_def validate_empty_iff)
qed

section \<open>The claims\<close>

subsection \<open>C1: the run on two lines, into one file\<close>

text \<open>
  C1, as the code has it. The input file has the lines \<open>1 2 3\<close> and \<open>4 5 6\<close>, the
  matrix is neither transposed nor split, the output file \<open>out.txt\<close> can be opened and
  has room for 14 characters, and the two conversions give the texts \<open>1\<close> to \<open>6\<close> back.
  Then the run succeeds, \<open>out.txt\<close> is created or truncated, no other file changes, and
  the content of \<open>out.txt\<close> is the two rows in order, every value followed by one space
  and every row by a newline: the delimiter of the \<open>std::ostream_iterator\<close> follows the
  last value of a row as well.
\<close>

theorem single_file_example:
  assumes "input_files_of p (inputFileName req) = Content [''1 2 3'', ''4 5 6'']"
    and "\<not> shallTranspose req" and "\<not> shallCreateFileForEachRow req"
    and "outputFileNames req = ''out.txt''"
    and "room_of p ''out.txt'' = Some n" and "14 \<le> n"
    and "\<forall>t\<in>set [''1'', ''2'', ''3'', ''4'', ''5'', ''6'']. dtoa_of p (strtod_of p t) = t"
  shows "runConversion p req files =
           (Inr (), files(''out.txt'' \<mapsto> ''1 2 3 '' @ [CHR 0x0A] @ ''4 5 6 '' @ [CHR 0x0A]))"
proof -
  let ?m = "[[strtod_of p ''1'', strtod_of p ''2'', strtod_of p ''3''],
             [strtod_of p ''4'', strtod_of p ''5'', strtod_of p ''6'']]"
  have l: "load_matrix p req = Inr ?m" using assms(1) by (rule example_load)
  have f: "final_matrix req ?m = ?m" using assms(2) by (simp add: final_matrix_def)
  have t: "concat (map (row_text (dtoa_of p)) ?m) = ''1 2 3 '' @ [CHR 0x0A] @ ''4 5 6 '' @ [CHR 0x0A]"
    using assms(7) by (simp add: row_text_def)
  have "length (concat (map (row_text (dtoa_of p)) (final_matrix req ?m))) \<le> n"
    using assms(6) by (simp only: f t) simp
  from runConversion_single [OF l assms(3) _ this, of files] assms(4,5) f t
  show ?thesis by simp
qed

theorem single_file_example_witness:
  "runConversion (decimal_platform (one_file ''in.txt'' [''1 2 3'', ''4 5 6'']))
     (example_request False False ''out.txt'' []) Map.empty =
   (Inr (), [''out.txt'' \<mapsto> ''1 2 3 '' @ [CHR 0x0A] @ ''4 5 6 '' @ [CHR 0x0A]])"
  using single_file_example [of "decimal_platform (one_file ''in.txt'' [''1 2 3'', ''4 5 6''])"
      "example_request False False ''out.txt'' []" 4096 Map.empty]
  by (simp add: decimal_platform_def one_file_def example_request_def
      dec_strtod_values dec_dtoa_values)

text \<open>
  The content that C1 states has no space between the last value of a row and the
  newline. The run on the decimal platform succeeds and writes the space.
\<close>

theorem single_file_counterexample:
  "fst (runConversion (decimal_platform (one_file ''in.txt'' [''1 2 3'', ''4 5 6'']))
          (example_request False False ''out.txt'' []) Map.empty) = Inr () \<and>
   snd (runConversion (decimal_platform (one_file ''in.txt'' [''1 2 3'', ''4 5 6'']))
          (example_request False False ''out.txt'' []) Map.empty) ''out.txt'' =
     Some (''1 2 3 '' @ [CHR 0x0A] @ ''4 5 6 '' @ [CHR 0x0A]) \<and>
   snd (runConversion (decimal_platform (one_file ''in.txt'' [''1 2 3'', ''4 5 6'']))
          (example_request False False ''out.txt'' []) Map.empty) ''out.txt'' \<noteq>
     Some (''1 2 3'' @ [CHR 0x0A] @ ''4 5 6'' @ [CHR 0x0A])"
proof -
  let ?p = "decimal_platform (one_file ''in.txt'' [''1 2 3'', ''4 5 6''])"
  let ?req = "example_request False False ''out.txt'' []"
  have f: "final_matrix ?req [[1, 2, 3], [4, 5, 6::rat]] = [[1, 2, 3], [4, 5, 6]]"
    by (simp add: final_matrix_def example_request_def)
  have t: "concat (map (row_text (dtoa_of ?p)) [[1, 2, 3], [4, 5, 6::rat]]) =
             ''1 2 3 '' @ [CHR 0x0A] @ ''4 5 6 '' @ [CHR 0x0A]"
    by (simp add: row_text_def decimal_platform_def dec_dtoa_values)
  have "runConversion ?p ?req Map.empty =
          (Inr (), [outputFileNames ?req \<mapsto>
                      concat (map (row_text (dtoa_of ?p)) (final_matrix ?req [[1, 2, 3], [4, 5, 6]]))])"
  proof (rule runConversion_single [where n = 4096])
    show "load_matrix ?p ?req = Inr [[1, 2, 3], [4, 5, 6]]" by (rule example_decimal_load)
    show "\<not> shallCreateFileForEachRow ?req" by (simp add: example_request_def)
    show "room_of ?p (outputFileNames ?req) = Some 4096" by (simp add: decimal_platform_def)
    show "length (concat (map (row_text (dtoa_of ?p)) (final_matrix ?req [[1, 2, 3], [4, 5, 6]])))
            \<le> 4096"
      by (simp only: f t) simp
  qed
  then have r: "runConversion ?p ?req Map.empty =
      (Inr (), [outputFileNames ?req \<mapsto> ''1 2 3 '' @ [CHR 0x0A] @ ''4 5 6 '' @ [CHR 0x0A]])"
    by (simp only: f t)
  have o: "outputFileNames ?req = ''out.txt''" by (simp add: example_request_def)
  show ?thesis unfolding r o by simp
qed

subsection \<open>C2: the transposed matrix\<close>

text \<open>
  C2. When the transpose flag is set and the matrix has \<open>R > 0\<close> rows of \<open>C\<close> values each,
  the matrix that is written has \<open>C\<close> rows of \<open>R\<close> values each, its element \<open>i\<close> of row \<open>j\<close> is
  element \<open>j\<close> of row \<open>i\<close> of the input, and row \<open>j\<close> is the list of the elements \<open>j\<close> of the
  input rows in their order.
\<close>

theorem transpose_law:
  assumes "shallTranspose req" and "length matrix = R" and "0 < R"
    and "\<forall>row\<in>set matrix. length row = C"
  shows "length (final_matrix req matrix) = C \<and>
         (\<forall>j<C. length (final_matrix req matrix ! j) = R \<and>
                 (\<forall>i<R. final_matrix req matrix ! j ! i = matrix ! i ! j) \<and>
                 final_matrix req matrix ! j = map (\<lambda>row. row ! j) matrix)"
proof -
  have ne: "matrix \<noteq> []" using assms(2,3) by auto
  then have "hd matrix \<in> set matrix" by simp
  then have hdC: "length (hd matrix) = C" using assms(4) by blast
  have "transpose_matrix matrix = map (\<lambda>j. map (\<lambda>row. row ! j) matrix) [0..<C]"
    using transpose_matrix_eq [OF ne] assms(4) hdC by simp
  then show ?thesis using assms(1,2) by (simp add: final_matrix_def)
qed

theorem transpose_law_witness:
  "length (final_matrix (example_request True False ''out.txt'' []) [[1, 2, 3], [4, 5, 6::rat]]) = 3 \<and>
   final_matrix (example_request True False ''out.txt'' []) [[1, 2, 3], [4, 5, 6::rat]] ! 2 = [3, 6] \<and>
   final_matrix (example_request True False ''out.txt'' []) [[1, 2, 3], [4, 5, 6::rat]] ! 2 ! 1 = 6"
proof -
  let ?req = "example_request True False ''out.txt'' []" and ?m = "[[1, 2, 3], [4, 5, 6::rat]]"
  have h: "shallTranspose ?req" "length ?m = 2" "0 < (2::nat)" "\<forall>row\<in>set ?m. length row = 3"
    by (simp_all add: example_request_def)
  from transpose_law [OF h] have a: "length (final_matrix ?req ?m) = 3"
    and b: "\<And>j. j < 3 \<Longrightarrow> final_matrix ?req ?m ! j = map (\<lambda>row. row ! j) ?m"
    by blast+
  from b [of 2] have "final_matrix ?req ?m ! 2 = [3, 6]" by simp
  with a show ?thesis by simp
qed

subsection \<open>C3: the two parts of the output pattern\<close>

text \<open>
  C3. For a token that is not empty and occurs in the pattern, wherever (\<open>a\<close> is any
  text before an occurrence), the planner succeeds with a first and a last part such that
  the pattern is the first part, the token and the last part; the first part is no longer
  than \<open>a\<close>, so the match is the leftmost one, and whatever follows it, further
  occurrences of the token included, is the last part; the file name of row \<open>i\<close> is the
  first part, the decimal text of \<open>i\<close> and the last part.
\<close>

theorem plan_leftmost:
  assumes "token \<noteq> []" and "pattern = a @ token @ b"
  shows "\<exists>pre post. plan token pattern = Inr (pre, post) \<and> pattern = pre @ token @ post \<and>
           length pre \<le> length a \<and>
           (\<forall>i. file_name (pre, post) i = pre @ to_string i @ post)"
proof -
  let ?i = "findBoyerMoore token pattern"
  have le: "?i \<le> length a" using assms(2) by (rule findBoyerMoore_leftmost)
  have "length a < length pattern" using assms by simp
  with le have lt: "?i < length pattern" by simp
  have p: "plan token pattern = Inr (take ?i pattern, drop (?i + length token) pattern)"
    using assms(1) lt by (simp add: plan_def Let_def)
  have s: "pattern = take ?i pattern @ token @ drop (?i + length token) pattern"
    using lt by (rule findBoyerMoore_split)
  have "length (take ?i pattern) \<le> length a" using le by simp
  with p s show ?thesis by (auto simp: file_name_def)
qed

theorem plan_leftmost_witness:
  "plan ''#'' ''out_#.txt'' = Inr (''out_'', ''.txt'') \<and>
   file_name (''out_'', ''.txt'') 3 = ''out_3.txt'' \<and>
   plan ''aab'' ''xaaab_aab'' = Inr (''xa'', ''_aab'') \<and>
   plan ''#'' ''a#b#c'' = Inr (''a'', ''b#c'') \<and>
   file_name (''a'', ''b#c'') 3 = ''a3b#c''"
proof -
  from plan_leftmost [of "''#''" "''out_#.txt''" "''out_''" "''.txt''"]
  obtain pre post where a: "plan ''#'' ''out_#.txt'' = Inr (pre, post)"
    and n: "\<forall>i. file_name (pre, post) i = pre @ to_string i @ post"
    by auto
  from a have "pre = ''out_''" and "post = ''.txt''" by (simp_all add: plan_examples)
  with n have f: "file_name (''out_'', ''.txt'') 3 = ''out_3.txt''"
    by (simp add: to_string_values)
  from plan_leftmost [of "''#''" "''a#b#c''" "''a''" "''b#c''"]
  obtain pre' post' where a': "plan ''#'' ''a#b#c'' = Inr (pre', post')"
    and n': "\<forall>i. file_name (pre', post') i = pre' @ to_string i @ post'"
    by auto
  from a' have "pre' = ''a''" and "post' = ''b#c''" by (simp_all add: plan_examples)
  with n' have f': "file_name (''a'', ''b#c'') 3 = ''a3b#c''"
    by (simp add: to_string_values)
  from f f' show ?thesis by (simp add: plan_examples)
qed

subsection \<open>C4: one file for each row\<close>

text \<open>
  C4. The run has read and checked a matrix, splitting is requested and the planner has
  given the two parts of the pattern. If every row fits the file of its number, the run
  succeeds, the file of row \<open>i\<close> (counted from 1, in the order of the matrix that is
  written) holds exactly the text of that row, all other files are as before, and the
  names of the files are distinct. If row \<open>j + 1\<close> is the first that does not fit its file,
  the run ends with the write error of that row and that file, the files of the rows
  before it hold their rows, and the files of the rows after it are as before.
\<close>

theorem split_mode_files:
  assumes "load_matrix p req = Inr loaded" and "shallCreateFileForEachRow req"
    and "plan (replaceString req) (outputFileNames req) = Inr parts"
    and "matrix = final_matrix req loaded"
  shows "((\<forall>i<length matrix. fits (room_of p) (file_name parts (Suc i))
                                (row_text (dtoa_of p) (matrix ! i))) \<longrightarrow>
          fst (runConversion p req files) = Inr () \<and>
          (\<forall>i<length matrix. snd (runConversion p req files) (file_name parts (Suc i)) =
                                Some (row_text (dtoa_of p) (matrix ! i))) \<and>
          (\<forall>name. (\<forall>i<length matrix. name \<noteq> file_name parts (Suc i)) \<longrightarrow>
                    snd (runConversion p req files) name = files name) \<and>
          distinct (map (\<lambda>i. file_name parts (Suc i)) [0..<length matrix])) \<and>
         (\<forall>j<length matrix.
            (\<forall>i<j. fits (room_of p) (file_name parts (Suc i)) (row_text (dtoa_of p) (matrix ! i))) \<and>
            \<not> fits (room_of p) (file_name parts (Suc j)) (row_text (dtoa_of p) (matrix ! j)) \<longrightarrow>
            fst (runConversion p req files) = Inl (WriteError (Suc j) (file_name parts (Suc j))) \<and>
            (\<forall>i<j. snd (runConversion p req files) (file_name parts (Suc i)) =
                       Some (row_text (dtoa_of p) (matrix ! i))) \<and>
            (\<forall>i>j. snd (runConversion p req files) (file_name parts (Suc i)) =
                       files (file_name parts (Suc i))))"
proof -
  let ?w = "write_each_row (room_of p) (dtoa_of p) parts 0 matrix files"
  have run: "runConversion p req files = ?w"
    using runConversion_split [OF assms(1-3), of files] assms(4) by simp
  have ok: "fst ?w = Inr () \<and>
            (\<forall>i<length matrix. snd ?w (file_name parts (Suc i)) =
                                  Some (row_text (dtoa_of p) (matrix ! i)))"
    if "\<forall>i<length matrix. fits (room_of p) (file_name parts (Suc i))
                              (row_text (dtoa_of p) (matrix ! i))"
    using write_each_row_ok [of matrix "room_of p" parts 0 "dtoa_of p" files] that by simp
  have frame: "\<forall>name. (\<forall>i<length matrix. name \<noteq> file_name parts (Suc i)) \<longrightarrow> snd ?w name = files name"
    using write_each_row_frame [of matrix _ parts 0 "room_of p" "dtoa_of p" files] by simp
  have fail: "fst ?w = Inl (WriteError (Suc j) (file_name parts (Suc j))) \<and>
            (\<forall>i<j. snd ?w (file_name parts (Suc i)) = Some (row_text (dtoa_of p) (matrix ! i))) \<and>
            (\<forall>i>j. snd ?w (file_name parts (Suc i)) = files (file_name parts (Suc i)))"
    if "j < length matrix"
      and "\<forall>i<j. fits (room_of p) (file_name parts (Suc i)) (row_text (dtoa_of p) (matrix ! i))"
      and "\<not> fits (room_of p) (file_name parts (Suc j)) (row_text (dtoa_of p) (matrix ! j))" for j
    using write_each_row_fail [of j matrix "room_of p" parts 0 "dtoa_of p" files] that by simp
  show ?thesis unfolding run using ok frame fail file_names_distinct [of parts "length matrix"]
    by blast
qed

theorem split_mode_files_witness:
  "fst (runConversion (decimal_platform (one_file ''in.txt'' [''1 2 3'', ''4 5 6'']))
          (example_request False True ''row_#.dat'' ''#'') Map.empty) = Inr () \<and>
   snd (runConversion (decimal_platform (one_file ''in.txt'' [''1 2 3'', ''4 5 6'']))
          (example_request False True ''row_#.dat'' ''#'') Map.empty) ''row_1.dat'' =
     Some (''1 2 3 '' @ [CHR 0x0A]) \<and>
   snd (runConversion (decimal_platform (one_file ''in.txt'' [''1 2 3'', ''4 5 6'']))
          (example_request False True ''row_#.dat'' ''#'') Map.empty) ''row_2.dat'' =
     Some (''4 5 6 '' @ [CHR 0x0A]) \<and>
   dom (snd (runConversion (decimal_platform (one_file ''in.txt'' [''1 2 3'', ''4 5 6'']))
          (example_request False True ''row_#.dat'' ''#'') Map.empty)) = {''row_1.dat'', ''row_2.dat''} \<and>
   fst (runConversion
          ((decimal_platform (one_file ''in.txt'' [''1 2 3'', ''4 5 6'']))
             \<lparr>room_of := (\<lambda>name. if name = ''row_1.dat'' then None else Some 4096)\<rparr>)
          (example_request False True ''row_#.dat'' ''#'') Map.empty) =
     Inl (WriteError 1 ''row_1.dat'') \<and>
   snd (runConversion
          ((decimal_platform (one_file ''in.txt'' [''1 2 3'', ''4 5 6'']))
             \<lparr>room_of := (\<lambda>name. if name = ''row_1.dat'' then None else Some 4096)\<rparr>)
          (example_request False True ''row_#.dat'' ''#'') Map.empty) ''row_2.dat'' = None"
proof -
  let ?p = "decimal_platform (one_file ''in.txt'' [''1 2 3'', ''4 5 6''])"
  let ?q = "?p\<lparr>room_of := (\<lambda>name. if name = ''row_1.dat'' then None else Some 4096)\<rparr>"
  let ?req = "example_request False True ''row_#.dat'' ''#''"
  let ?m = "[[1, 2, 3], [4, 5, 6::rat]]"
  let ?parts = "(''row_'', ''.dat'')"
  have l: "load_matrix ?p ?req = Inr ?m" by (rule example_decimal_load)
  have "load_matrix ?q ?req = load_matrix ?p ?req"
    by (simp add: load_matrix_def cong: sum.case_cong)
  with l have l': "load_matrix ?q ?req = Inr ?m" by simp
  have s: "shallCreateFileForEachRow ?req" by (simp add: example_request_def)
  have pl: "plan (replaceString ?req) (outputFileNames ?req) = Inr ?parts"
    by (simp add: example_request_def plan_examples)
  have f: "?m = final_matrix ?req ?m" by (simp add: final_matrix_def example_request_def)
  have n: "file_name ?parts (Suc 0) = ''row_1.dat''" "file_name ?parts (Suc (Suc 0)) = ''row_2.dat''"
    "file_name ?parts 1 = ''row_1.dat''" "file_name ?parts 2 = ''row_2.dat''"
    by (simp_all add: file_name_def to_string.simps digit_char_def)
  have t: "row_text (dtoa_of ?p) [1, 2, 3] = ''1 2 3 '' @ [CHR 0x0A]"
    "row_text (dtoa_of ?p) [4, 5, 6] = ''4 5 6 '' @ [CHR 0x0A]"
    "row_text (dtoa_of ?q) [1, 2, 3] = ''1 2 3 '' @ [CHR 0x0A]"
    "row_text (dtoa_of ?q) [4, 5, 6] = ''4 5 6 '' @ [CHR 0x0A]"
    by (simp_all add: row_text_def decimal_platform_def dec_dtoa_values)
  have all2: "\<And>P. (\<forall>i<length ?m. P i) \<longleftrightarrow> P 0 \<and> P (Suc 0)"
    by (auto simp: less_Suc_eq)
  have fit: "\<forall>i<length ?m. fits (room_of ?p) (file_name ?parts (Suc i)) (row_text (dtoa_of ?p) (?m ! i))"
    unfolding all2 by (simp add: n t) (simp add: fits_def decimal_platform_def)
  let ?run = "runConversion ?p ?req Map.empty"
  from split_mode_files [OF l s pl f, of Map.empty] fit
  have a: "fst ?run = Inr ()"
    and b: "\<forall>i<length ?m. snd ?run (file_name ?parts (Suc i)) = Some (row_text (dtoa_of ?p) (?m ! i))"
    and c: "\<forall>name. (\<forall>i<length ?m. name \<noteq> file_name ?parts (Suc i)) \<longrightarrow> snd ?run name = None"
    by blast+
  from b have b1: "snd ?run ''row_1.dat'' = Some (''1 2 3 '' @ [CHR 0x0A])"
    and b2: "snd ?run ''row_2.dat'' = Some (''4 5 6 '' @ [CHR 0x0A])"
    unfolding all2 by (simp_all add: n t)
  from c have c': "\<And>name. name \<noteq> ''row_1.dat'' \<Longrightarrow> name \<noteq> ''row_2.dat'' \<Longrightarrow> snd ?run name = None"
    unfolding all2 by (simp add: n)
  have d: "dom (snd ?run) = {''row_1.dat'', ''row_2.dat''}"
  proof (rule set_eqI)
    fix name
    show "name \<in> dom (snd ?run) \<longleftrightarrow> name \<in> {''row_1.dat'', ''row_2.dat''}"
    proof (cases "name = ''row_1.dat'' \<or> name = ''row_2.dat''")
      case True
      then show ?thesis using b1 b2 by (auto simp: dom_def)
    next
      case False
      then have "snd ?run name = None" using c' by blast
      with False show ?thesis by (simp add: dom_def)
    qed
  qed
  let ?run' = "runConversion ?q ?req Map.empty"
  have nofit: "(\<forall>i<0. fits (room_of ?q) (file_name ?parts (Suc i)) (row_text (dtoa_of ?q) (?m ! i))) \<and>
               \<not> fits (room_of ?q) (file_name ?parts (Suc 0)) (row_text (dtoa_of ?q) (?m ! 0))"
    by (simp add: n fits_def decimal_platform_def)
  have "0 < length ?m" by simp
  with split_mode_files [OF l' s pl f, of Map.empty] nofit
  have e: "fst ?run' = Inl (WriteError (Suc 0) (file_name ?parts (Suc 0)))"
    and g: "\<forall>i>0. snd ?run' (file_name ?parts (Suc i)) = Map.empty (file_name ?parts (Suc i))"
    by blast+
  from e have e': "fst ?run' = Inl (WriteError 1 ''row_1.dat'')" by (simp add: n)
  from g have g': "snd ?run' ''row_2.dat'' = None" by (auto simp: n dest: spec [of _ "Suc 0"])
  from a b1 b2 d e' g' show ?thesis by blast
qed

subsection \<open>C5: a line that ends inside a number\<close>

text \<open>
  C5 asks for a parse error on every line with a token that is not a number. The test of
  line 119 is whether the stream of the line has reached its end, and the stream has
  also reached it when the last token breaks off where a number could go on: after a
  sign, or after an exponent letter. Such a line gives no error; the values before the
  token are the row, and the run on the file with the one line \<open>1 -\<close> succeeds and writes
  the row of the single value 1.
\<close>

theorem trailing_sign_accepted:
  "parse_lines strtod path 0 [''1 -''] = Inr [[strtod ''1'']] \<and>
   parse_lines strtod path 0 [''-''] = Inr [[]] \<and>
   parse_lines strtod path 0 [''1 2e''] = Inr [[strtod ''1'']] \<and>
   runConversion (decimal_platform (one_file ''in.txt'' [''1 -'']))
     (example_request False False ''out.txt'' []) Map.empty =
     (Inr (), [''out.txt'' \<mapsto> ''1 '' @ [CHR 0x0A]])"
proof -
  have p: "\<And>strtod :: string \<Rightarrow> 'b. \<And>path.
             parse_lines strtod path 0 [''1 -''] = Inr [[strtod ''1'']]"
    by (simp add: copy_doubles.simps extract_double_def istringstream_of_def scan_defs
        in_range_values)
  have q: "parse_lines strtod path 0 [''-''] = Inr [[]]"
    "parse_lines strtod path 0 [''1 2e''] = Inr [[strtod ''1'']]"
    by (simp_all add: copy_doubles.simps extract_double_def istringstream_of_def scan_defs
        in_range_values)
  let ?p = "decimal_platform (one_file ''in.txt'' [''1 -''])"
  let ?req = "example_request False False ''out.txt'' []"
  have c: "input_files_of ?p (inputFileName ?req) = Content [''1 -'']"
    by (simp add: decimal_platform_def one_file_def example_request_def)
  have "load_matrix ?p ?req = validate (inputFileName ?req) [[strtod_of ?p ''1'']]"
    by (simp add: load_matrix_def read_input_def c p del: parse_lines.simps)
  then have l: "load_matrix ?p ?req = Inr [[1]]"
    by (simp add: validate_def remove_empty_rows_def decimal_platform_def dec_strtod_values)
  have f: "final_matrix ?req [[1::rat]] = [[1]]"
    by (simp add: final_matrix_def example_request_def)
  have t: "concat (map (row_text (dtoa_of ?p)) [[1::rat]]) = ''1 '' @ [CHR 0x0A]"
    by (simp add: row_text_def decimal_platform_def dec_dtoa_values)
  have "runConversion ?p ?req Map.empty =
          (Inr (), [outputFileNames ?req \<mapsto>
                      concat (map (row_text (dtoa_of ?p)) (final_matrix ?req [[1]]))])"
  proof (rule runConversion_single [where n = 4096])
    show "load_matrix ?p ?req = Inr [[1]]" by (rule l)
    show "\<not> shallCreateFileForEachRow ?req" by (simp add: example_request_def)
    show "room_of ?p (outputFileNames ?req) = Some 4096" by (simp add: decimal_platform_def)
    show "length (concat (map (row_text (dtoa_of ?p)) (final_matrix ?req [[1]]))) \<le> 4096"
      by (simp only: f t) simp
  qed
  then have r: "runConversion ?p ?req Map.empty =
      (Inr (), [outputFileNames ?req \<mapsto> ''1 '' @ [CHR 0x0A]])"
    by (simp only: f t)
  have o: "outputFileNames ?req = ''out.txt''" by (simp add: example_request_def)
  from p [of strtod path] q r show ?thesis unfolding o by simp
qed

subsection \<open>C6: rows of different lengths\<close>

text \<open>
  C6, as the code has it. If, after the empty rows are removed, some row has another
  length than the first row, the validation fails with the exception of line 141 for the
  first such row, numbered from 1 among the rows that are not empty; the message of the
  exception is made of this number only.
\<close>

theorem ragged_row_number:
  assumes "rows = remove_empty_rows parsed"
    and "\<exists>row\<in>set rows. length row \<noteq> length (hd rows)"
  shows "\<exists>j<length rows.
           validate path parsed = Inl (RaggedMatrixError (Suc j)) \<and>
           length (rows ! j) \<noteq> length (hd rows) \<and>
           (\<forall>i<j. length (rows ! i) = length (hd rows)) \<and>
           what (RaggedMatrixError (Suc j)) =
             ''Row '' @ to_string (Suc j) @
             ''of the matrix contains a different number of samples than the first row.''"
proof -
  let ?n = "length (hd rows)"
  let ?P = "\<lambda>i. i < length rows \<and> length (rows ! i) \<noteq> ?n"
  from assms(2) have "\<exists>i. ?P i" by (auto simp: in_set_conv_nth)
  then have Pj: "?P (LEAST i. ?P i)" by (rule LeastI_ex)
  define j where "j = (LEAST i. ?P i)"
  have j: "j < length rows" and mis: "length (rows ! j) \<noteq> ?n" using Pj by (simp_all add: j_def)
  have first: "\<forall>i<j. length (rows ! i) = ?n"
  proof (intro allI impI)
    fix i assume i: "i < j"
    then have "\<not> ?P i" unfolding j_def by (rule not_less_Least)
    with i j show "length (rows ! i) = ?n" by simp
  qed
  from j obtain front rest where r: "rows = front # rest" by (cases rows) auto
  have "check_rows ?n 0 rows = Inl (RaggedMatrixError (Suc (0 + j)))"
    using j first mis by (rule check_rows_first)
  then have c: "check_rows (length front) 0 (front # rest) = Inl (RaggedMatrixError (Suc j))"
    by (simp add: r del: check_rows.simps)
  have rp: "remove_empty_rows parsed = front # rest" using assms(1) r by simp
  have "validate path parsed = Inl (RaggedMatrixError (Suc j))"
    using c by (simp add: validate_def rp del: check_rows.simps)
  with j mis first show ?thesis by auto
qed

theorem ragged_row_number_witness:
  "validate ''in.txt'' [[1, 2], [], [3, 4], [5], [6, 7, 8::rat]] = Inl (RaggedMatrixError 3)"
proof -
  let ?parsed = "[[1, 2], [], [3, 4], [5], [6, 7, 8::rat]]"
  have r: "remove_empty_rows ?parsed = [[1, 2], [3, 4], [5], [6, 7, 8]]"
    by (simp add: remove_empty_rows_def)
  have "\<exists>row\<in>set (remove_empty_rows ?parsed). length row \<noteq> length (hd (remove_empty_rows ?parsed))"
    by (simp add: r)
  from ragged_row_number [OF refl this, of "''in.txt''"]
  obtain j where "validate ''in.txt'' ?parsed = Inl (RaggedMatrixError (Suc j))"
    and "length (remove_empty_rows ?parsed ! j) \<noteq> length (hd (remove_empty_rows ?parsed))"
    and "\<forall>i<j. length (remove_empty_rows ?parsed ! i) = length (hd (remove_empty_rows ?parsed))"
    by blast
  moreover have "validate ''in.txt'' ?parsed = Inl (RaggedMatrixError 3)"
    by (simp add: validate_def r)
  ultimately show ?thesis by simp
qed

text \<open>
  C6 states that the error names the file and the expected and the actual number of
  columns. Two inputs that differ in all three give the same exception, and its message
  has none of them.
\<close>

theorem ragged_error_counterexample:
  "validate ''a.txt'' [[1, 2], [3::rat]] = Inl (RaggedMatrixError 2) \<and>
   validate ''b.txt'' [[1, 2, 3], [], [4::rat]] = Inl (RaggedMatrixError 2) \<and>
   what (RaggedMatrixError 2) =
     ''Row 2of the matrix contains a different number of samples than the first row.''"
  by (simp add: validate_def remove_empty_rows_def to_string_values)

subsection \<open>C7: the exceptions of the planner\<close>

text \<open>
  C7. In a run that has read and checked its matrix and is asked to split, an empty token
  ends the run with the exception of line 161, and a token that is not empty and does not
  occur in the pattern ends it with the exception of line 169; no file is touched. In a run
  that is not asked to split, neither of the two exceptions ends the run, whatever the
  token is.
\<close>

theorem planning_errors:
  "(load_matrix p req = Inr matrix \<and> shallCreateFileForEachRow req \<and> replaceString req = []
      \<longrightarrow> runConversion p req files = (Inl EmptyTokenError, files)) \<and>
   (load_matrix p req = Inr matrix \<and> shallCreateFileForEachRow req \<and> replaceString req \<noteq> [] \<and>
    (\<forall>a b. outputFileNames req \<noteq> a @ replaceString req @ b)
      \<longrightarrow> runConversion p req files = (Inl TokenNotFoundError, files)) \<and>
   (\<not> shallCreateFileForEachRow req
      \<longrightarrow> fst (runConversion p req files) \<noteq> Inl EmptyTokenError \<and>
          fst (runConversion p req files) \<noteq> Inl TokenNotFoundError)"
proof (intro conjI impI)
  assume "load_matrix p req = Inr matrix \<and> shallCreateFileForEachRow req \<and> replaceString req = []"
  then show "runConversion p req files = (Inl EmptyTokenError, files)"
    by (simp add: runConversion_def write_matrix_def plan_def)
next
  assume a: "load_matrix p req = Inr matrix \<and> shallCreateFileForEachRow req \<and>
             replaceString req \<noteq> [] \<and> (\<forall>a b. outputFileNames req \<noteq> a @ replaceString req @ b)"
  then have "findBoyerMoore (replaceString req) (outputFileNames req) = length (outputFileNames req)"
    by (intro findBoyerMoore_absent) simp
  with a show "runConversion p req files = (Inl TokenNotFoundError, files)"
    by (simp add: runConversion_def write_matrix_def plan_def)
next
  assume single: "\<not> shallCreateFileForEachRow req"
  have "fst (runConversion p req files) \<noteq> Inl e" if e: "e = EmptyTokenError \<or> e = TokenNotFoundError" for e
  proof (cases "load_matrix p req")
    case (Inl e')
    then have "fst (runConversion p req files) = Inl e'" by (simp add: runConversion_def)
    with load_matrix_error [OF Inl] e show ?thesis by auto
  next
    case (Inr m)
    show ?thesis
    proof
      assume "fst (runConversion p req files) = Inl e"
      then have "fst (write_rows (room_of p) (dtoa_of p) (outputFileNames req) 0 (final_matrix req m)
                   (open_ofstream (room_of p) (outputFileNames req) files)) = Inl e"
        using Inr single by (simp add: runConversion_def write_matrix_def)
      from write_rows_error [OF this] e show False by auto
    qed
  qed
  then show "fst (runConversion p req files) \<noteq> Inl EmptyTokenError"
    and "fst (runConversion p req files) \<noteq> Inl TokenNotFoundError" by blast+
qed

theorem planning_errors_witness:
  "runConversion (decimal_platform (one_file ''in.txt'' [''1 2 3'', ''4 5 6'']))
     (example_request False True ''out.txt'' []) Map.empty = (Inl EmptyTokenError, Map.empty) \<and>
   runConversion (decimal_platform (one_file ''in.txt'' [''1 2 3'', ''4 5 6'']))
     (example_request False True ''out.txt'' ''#'') Map.empty = (Inl TokenNotFoundError, Map.empty) \<and>
   fst (runConversion (decimal_platform (one_file ''in.txt'' [''1 2 3'', ''4 5 6'']))
     (example_request False False ''out.txt'' []) Map.empty) \<noteq> Inl EmptyTokenError"
proof -
  let ?p = "decimal_platform (one_file ''in.txt'' [''1 2 3'', ''4 5 6''])"
  note l = example_decimal_load
  have a: "runConversion ?p (example_request False True ''out.txt'' []) Map.empty =
             (Inl EmptyTokenError, Map.empty)"
    using planning_errors [of ?p "example_request False True ''out.txt'' []" _ Map.empty] l
    by (simp add: example_request_def)
  have b: "runConversion ?p (example_request False True ''out.txt'' ''#'') Map.empty =
             (Inl TokenNotFoundError, Map.empty)"
    using planning_errors [of ?p "example_request False True ''out.txt'' ''#''" _ Map.empty] l no_hash
    by (simp add: example_request_def)
  have c: "fst (runConversion ?p (example_request False False ''out.txt'' []) Map.empty) \<noteq>
             Inl EmptyTokenError"
    using planning_errors [of ?p "example_request False False ''out.txt'' []" _ Map.empty]
    by (simp add: example_request_def)
  from a b c show ?thesis by blast
qed

subsection \<open>C8: empty rows and the empty matrix\<close>

text \<open>
  C8. The erase-remove of lines 126 to 129 keeps exactly the rows that are not empty, in
  their order. The validation as a whole does so: whenever it succeeds, the matrix it
  hands on is exactly the parsed rows that are not empty, in their order, and there is at
  least one; and it does succeed with that matrix when such rows exist and have one
  length. It fails with the exception of line 132, which names the input file, if and only
  if no row is left. A run on a file whose lines are all blank (among them the file
  without lines) ends with that exception and touches no file.
\<close>

theorem empty_rows_removed:
  "remove_empty_rows parsed = filter (\<lambda>row. row \<noteq> []) parsed \<and>
   (validate path parsed = Inr matrix \<longrightarrow>
      matrix = filter (\<lambda>row. row \<noteq> []) parsed \<and> matrix \<noteq> []) \<and>
   (filter (\<lambda>row. row \<noteq> []) parsed \<noteq> [] \<and>
    (\<forall>row\<in>set (filter (\<lambda>row. row \<noteq> []) parsed).
        length row = length (hd (filter (\<lambda>row. row \<noteq> []) parsed)))
      \<longrightarrow> validate path parsed = Inr (filter (\<lambda>row. row \<noteq> []) parsed)) \<and>
   (validate path parsed = Inl (EmptyMatrixError f) \<longleftrightarrow>
      f = path \<and> filter (\<lambda>row. row \<noteq> []) parsed = []) \<and>
   (input_files_of p (inputFileName req) = Content lines \<and>
    (\<forall>line\<in>set lines. \<forall>c\<in>set line. isspace c) \<longrightarrow>
      runConversion p req files = (Inl (EmptyMatrixError (inputFileName req)), files))"
proof (intro conjI impI)
  show "remove_empty_rows parsed = filter (\<lambda>row. row \<noteq> []) parsed"
    by (rule remove_empty_rows_filter)
  show "validate path parsed = Inl (EmptyMatrixError f) \<longleftrightarrow>
          f = path \<and> filter (\<lambda>row. row \<noteq> []) parsed = []"
    using validate_empty_iff [of path parsed f] by (simp add: remove_empty_rows_filter)
next
  assume v: "validate path parsed = Inr matrix"
  from validate_Inr [OF v] have m: "matrix = remove_empty_rows parsed" and ne: "matrix \<noteq> []"
    by blast+
  from m show "matrix = filter (\<lambda>row. row \<noteq> []) parsed"
    by (simp only: remove_empty_rows_filter)
  from ne show "matrix \<noteq> []" .
next
  let ?rows = "filter (\<lambda>row. row \<noteq> []) parsed"
  assume a: "?rows \<noteq> [] \<and> (\<forall>row\<in>set ?rows. length row = length (hd ?rows))"
  then have "check_rows (length (hd ?rows)) 0 ?rows = Inr ()"
    by (simp only: check_rows_ok) blast
  with a show "validate path parsed = Inr ?rows"
    by (simp add: validate_filter)
next
  assume "input_files_of p (inputFileName req) = Content lines \<and>
          (\<forall>line\<in>set lines. \<forall>c\<in>set line. isspace c)"
  then have "input_files_of p (inputFileName req) = Content lines"
    and "\<forall>line\<in>set lines. \<forall>c\<in>set line. isspace c" by blast+
  then have "load_matrix p req = Inl (EmptyMatrixError (inputFileName req))"
    by (rule blank_lines_empty)
  then show "runConversion p req files = (Inl (EmptyMatrixError (inputFileName req)), files)"
    by (simp add: runConversion_def)
qed

theorem empty_rows_removed_witness:
  "runConversion (decimal_platform (one_file ''in.txt'' ['''', [CHR '' '', CHR 0x09], [CHR 0x0D]]))
     (example_request False False ''out.txt'' []) Map.empty =
     (Inl (EmptyMatrixError ''in.txt''), Map.empty) \<and>
   runConversion (decimal_platform (one_file ''in.txt'' []))
     (example_request False False ''out.txt'' []) Map.empty =
     (Inl (EmptyMatrixError ''in.txt''), Map.empty) \<and>
   remove_empty_rows [[], [1, 2], [], [3::rat]] = [[1, 2], [3]] \<and>
   validate ''in.txt'' [[], [1, 2], [], [3, 4::rat]] = Inr [[1, 2], [3, 4]] \<and>
   validate ''in.txt'' [[], [], []::rat list] = Inl (EmptyMatrixError ''in.txt'')"
proof -
  let ?req = "example_request False False ''out.txt'' []"
  let ?p0 = "decimal_platform (one_file ''in.txt'' [])"
  have a: "runConversion (decimal_platform (one_file ''in.txt'' ['''', [CHR '' '', CHR 0x09], [CHR 0x0D]]))
             ?req Map.empty = (Inl (EmptyMatrixError ''in.txt''), Map.empty)"
    using empty_rows_removed [of "[]::rat list list" "[]" "[]" "[]"
        "decimal_platform (one_file ''in.txt'' ['''', [CHR '' '', CHR 0x09], [CHR 0x0D]])"
        ?req "['''', [CHR '' '', CHR 0x09], [CHR 0x0D]]" Map.empty]
    by (simp add: decimal_platform_def one_file_def example_request_def isspace_def)
  have b: "runConversion ?p0 ?req Map.empty = (Inl (EmptyMatrixError ''in.txt''), Map.empty)"
    using empty_rows_removed [of "[]::rat list list" "[]" "[]" "[]" ?p0 ?req "[]" Map.empty]
    by (simp add: decimal_platform_def one_file_def example_request_def)
  have c: "remove_empty_rows [[], [1, 2], [], [3::rat]] = [[1, 2], [3]]"
    using empty_rows_removed [of "[[], [1, 2], [], [3::rat]]" "[]" "[]" "[]" ?p0 ?req "[]" Map.empty]
    by simp
  have d: "validate ''in.txt'' [[], [1, 2], [], [3, 4::rat]] = Inr [[1, 2], [3, 4]]"
    using empty_rows_removed [of "[[], [1, 2], [], [3, 4::rat]]" "''in.txt''" "[]" "[]"
        ?p0 ?req "[]" Map.empty]
    by simp
  have e: "validate ''in.txt'' [[], [], []::rat list] = Inl (EmptyMatrixError ''in.txt'')"
    using empty_rows_removed [of "[[], [], []::rat list]" "''in.txt''" "[]" "''in.txt''"
        ?p0 ?req "[]" Map.empty]
    by simp
  from a b c d e show ?thesis by blast
qed

subsection \<open>C9: transposing twice\<close>

text \<open>
  C9. For a matrix as the validation leaves it, with at least one row, rows that are not
  empty and all of the length of the first, transposing twice gives the matrix back.
\<close>

theorem transpose_involutive:
  assumes "M \<noteq> []" and "hd M \<noteq> []" and "\<forall>row\<in>set M. length row = length (hd M)"
  shows "transpose_matrix (transpose_matrix M) = M"
proof -
  let ?C = "length (hd M)" and ?R = "length M"
  let ?T = "map (\<lambda>j. map (\<lambda>row. row ! j) M) [0..<?C]"
  have T: "transpose_matrix M = ?T" using assms(1,3) by (rule transpose_matrix_eq)
  have C: "0 < ?C" using assms(2) by simp
  have Tne: "?T \<noteq> []" using C by simp
  have hdT: "hd ?T = map (\<lambda>row. row ! 0) M" using C by (simp add: hd_map upt_conv_Cons)
  have rowsT: "\<forall>row\<in>set ?T. length row = length (hd ?T)" by (simp add: hdT)
  have "transpose_matrix ?T = map (\<lambda>i. map (\<lambda>row. row ! i) ?T) [0..<?R]"
    using transpose_matrix_eq [OF Tne rowsT] by (simp add: hdT)
  also have "\<dots> = M"
  proof (rule nth_equalityI)
    show "length (map (\<lambda>i. map (\<lambda>row. row ! i) ?T) [0..<?R]) = length M" by simp
  next
    fix i assume "i < length (map (\<lambda>i. map (\<lambda>row. row ! i) ?T) [0..<?R])"
    then have i: "i < ?R" by simp
    then have "M ! i \<in> set M" by simp
    then have li: "length (M ! i) = ?C" using assms(3) by blast
    have "map (\<lambda>row. row ! i) ?T = M ! i"
      by (rule nth_equalityI) (use i li in simp_all)
    then show "map (\<lambda>i. map (\<lambda>row. row ! i) ?T) [0..<?R] ! i = M ! i" using i by simp
  qed
  finally show ?thesis using T by simp
qed

theorem transpose_involutive_witness:
  "transpose_matrix (transpose_matrix [[1, 2, 3], [4, 5, 6::rat]]) = [[1, 2, 3], [4, 5, 6]]"
  using transpose_involutive [of "[[1, 2, 3], [4, 5, 6::rat]]"] by simp

subsection \<open>C10: all rows that are written have one length\<close>

text \<open>
  C10. If the run has read and checked a matrix, every row has the length of the first
  row, every row of the transposed matrix has as many values as the matrix has rows, every
  row of the matrix that is written, transposed or not, has the length of its first row,
  and the run writes exactly that matrix.
\<close>

theorem rectangular_invariant:
  assumes "load_matrix p req = Inr matrix"
  shows "(\<forall>row\<in>set matrix. length row = length (hd matrix)) \<and>
         (\<forall>row\<in>set (transpose_matrix matrix). length row = length matrix) \<and>
         (\<forall>row\<in>set (final_matrix req matrix).
             length row = length (hd (final_matrix req matrix))) \<and>
         runConversion p req files = write_matrix p req (final_matrix req matrix) files"
proof -
  from load_matrix_Inr [OF assms] have ne: "matrix \<noteq> []" and hd: "hd matrix \<noteq> []"
    and rows: "\<forall>row\<in>set matrix. length row = length (hd matrix)" by blast+
  let ?T = "map (\<lambda>j. map (\<lambda>row. row ! j) matrix) [0..<length (hd matrix)]"
  have T: "transpose_matrix matrix = ?T" using ne rows by (rule transpose_matrix_eq)
  have tr: "\<forall>row\<in>set (transpose_matrix matrix). length row = length matrix"
    unfolding T by auto
  have "0 < length (hd matrix)" using hd by simp
  then have "hd ?T = map (\<lambda>row. row ! 0) matrix" by (simp add: hd_map upt_conv_Cons)
  then have "length (hd (transpose_matrix matrix)) = length matrix" unfolding T by simp
  with tr rows have "\<forall>row\<in>set (final_matrix req matrix).
      length row = length (hd (final_matrix req matrix))"
    by (simp add: final_matrix_def)
  with rows tr runConversion_loaded [OF assms, of files] show ?thesis by blast
qed

theorem rectangular_invariant_witness:
  "map length (final_matrix (example_request True False ''out.txt'' [])
                 [[1, 2, 3], [4, 5, 6::rat]]) = [2, 2, 2] \<and>
   map length (final_matrix (example_request False False ''out.txt'' [])
                 [[1, 2, 3], [4, 5, 6::rat]]) = [3, 3]"
proof -
  let ?p = "decimal_platform (one_file ''in.txt'' [''1 2 3'', ''4 5 6''])"
  let ?m = "[[1, 2, 3], [4, 5, 6::rat]]"
  have t: "transpose_matrix ?m = [[1, 4], [2, 5], [3, 6]]" by (simp add: transpose_matrix_def)
  from rectangular_invariant [OF example_decimal_load, of True False "''out.txt''" "[]"]
  have "\<forall>row\<in>set (final_matrix (example_request True False ''out.txt'' []) ?m).
          length row = length (hd (final_matrix (example_request True False ''out.txt'' []) ?m))"
    by blast
  then have a: "map length (final_matrix (example_request True False ''out.txt'' []) ?m) = [2, 2, 2]"
    by (simp add: final_matrix_def example_request_def t)
  from rectangular_invariant [OF example_decimal_load, of False False "''out.txt''" "[]"]
  have "\<forall>row\<in>set (final_matrix (example_request False False ''out.txt'' []) ?m).
          length row = length (hd (final_matrix (example_request False False ''out.txt'' []) ?m))"
    by blast
  then have b: "map length (final_matrix (example_request False False ''out.txt'' []) ?m) = [3, 3]"
    by (simp add: final_matrix_def example_request_def)
  from a b show ?thesis by simp
qed

end
